theory Spec2Isabelle
  imports Main "HOL-Library.Word" "HOL-Library.Sublist"
begin

section \<open>JavaScript strings\<close>

text \<open>
  A JavaScript string is a sequence of UTF-16 code units: \<open>s.length\<close> counts code units
  and \<open>s.indexOf\<close> returns a code-unit index. \<open>js\<close> writes an ASCII literal.
\<close>

type_synonym jsstr = "16 word list"

definition js :: "string \<Rightarrow> jsstr" where
  "js s = map (\<lambda>c. of_nat (of_char c)) s"

text \<open>Truthiness of a possibly absent string: \<open>undefined\<close> and \<open>""\<close> are falsy.\<close>

definition truthy :: "jsstr option \<Rightarrow> bool" where
  "truthy v = (case v of None \<Rightarrow> False | Some s \<Rightarrow> s \<noteq> [])"

text \<open>\<open>v || ""\<close> for a possibly absent string.\<close>

definition or_empty :: "jsstr option \<Rightarrow> jsstr" where
  "or_empty v = (case v of None \<Rightarrow> [] | Some s \<Rightarrow> s)"

text \<open>
  \<open>String.prototype.indexOf\<close>: the smallest index at which the search string starts,
  or \<open>-1\<close>. \<open>includes\<close> and \<open>endsWith\<close> are the library predicates of the same name.
\<close>

fun indexOf_from :: "'a list \<Rightarrow> 'a list \<Rightarrow> nat \<Rightarrow> int" where
  "indexOf_from [] u k = (if u = [] then int k else - 1)"
| "indexOf_from (c # cs) u k =
     (if prefix u (c # cs) then int k else indexOf_from cs u (Suc k))"

definition indexOf :: "'a list \<Rightarrow> 'a list \<Rightarrow> int" where
  "indexOf t u = indexOf_from t u 0"

definition includes_js :: "'a list \<Rightarrow> 'a list \<Rightarrow> bool" where
  "includes_js t u = (indexOf t u \<noteq> - 1)"

definition endsWith :: "'a list \<Rightarrow> 'a list \<Rightarrow> bool" where
  "endsWith t u = suffix u t"

text \<open>
  The measure the facet consumers use: the number of bytes of the UTF-8 encoding of a
  string (what \<open>new TextEncoder().encode(s).length\<close> gives). A surrogate pair is one code
  point of four bytes; a lone surrogate is encoded as U+FFFD, three bytes. The source
  never computes it; it is the reference the byte-offset claims are compared with.
\<close>

definition unit_bytes :: "16 word \<Rightarrow> nat" where
  "unit_bytes c = (if c < 0x80 then 1 else if c < 0x800 then 2 else 3)"

definition high_surrogate :: "16 word \<Rightarrow> bool" where
  "high_surrogate c = (0xD800 \<le> c \<and> c \<le> 0xDBFF)"

definition low_surrogate :: "16 word \<Rightarrow> bool" where
  "low_surrogate c = (0xDC00 \<le> c \<and> c \<le> 0xDFFF)"

fun utf8_length :: "jsstr \<Rightarrow> nat" where
  "utf8_length [] = 0"
| "utf8_length [c] = unit_bytes c"
| "utf8_length (c # d # cs) =
     (if high_surrogate c \<and> low_surrogate d then 4 + utf8_length cs
      else unit_bytes c + utf8_length (d # cs))"

definition ascii :: "jsstr \<Rightarrow> bool" where
  "ascii s = list_all (\<lambda>c. c < 0x80) s"

section \<open>Data exchanged with the service\<close>

text \<open>A thrown value: an \<open>Error\<close> with its message, or the engine's \<open>TypeError\<close>.\<close>

datatype js_error = Error jsstr | TypeError

record feature =
  dollar_type :: "jsstr option"
  uri :: "jsstr option"

record facet =
  features :: "feature list option"

text \<open>A post record of the account's history, as \<open>hasLinkBeenPosted\<close> reads it.\<close>

record post_record =
  ptext :: "jsstr option"
  facets :: "facet list option"

record post_view =
  precord :: "post_record option"

record feed_item =
  post :: "post_view option"

text \<open>
  \<open>response.data.feed\<close>: absent, a value that cannot be iterated, or an array whose
  elements are feed items or \<open>null\<close>.
\<close>

datatype feed_field = FeedMissing | FeedNotIterable | Feed "feed_item option list"

record page_data =
  feed :: feed_field
  cursor :: "jsstr option"

datatype feed_response = Rejected js_error | Response "page_data option"

record feed_request =
  actor :: jsstr
  limit :: nat
  req_cursor :: "jsstr option"

record session =
  handle :: "jsstr option"
  did :: jsstr

record agent =
  agent_session :: "session option"

text \<open>The outgoing post of \<open>sendBlueskyPost\<close>.\<close>

record byte_slice =
  byteStart :: int
  byteEnd :: int

record link_facet =
  index :: byte_slice
  link_features :: "feature list"

record out_record =
  out_type :: jsstr
  out_text :: jsstr
  createdAt :: jsstr
  out_facets :: "link_facet list option"

record create_request =
  repo :: jsstr
  collection :: jsstr
  new_record :: out_record

record rss_item =
  item_title :: "jsstr option"
  item_link :: "jsstr option"

record rss_feed =
  items :: "rss_item list option"

record latest_post =
  title :: jsstr
  link :: jsstr

section \<open>Effects\<close>

text \<open>
  Everything the module does to the outside world is an event of a trace, in the order
  it happens: the file read, the three kinds of network round-trip, console output and
  \<open>process.exit\<close>.
\<close>

datatype event =
    ReadFile jsstr
  | NetLogin jsstr jsstr
  | NetGetAuthorFeed feed_request
  | NetCreateRecord create_request
  | ConsoleLog "jsstr list"
  | ConsoleWarn jsstr js_error
  | ConsoleError jsstr js_error
  | ProcessExit nat

fun is_net :: "event \<Rightarrow> bool" where
  "is_net (NetLogin u p) = True"
| "is_net (NetGetAuthorFeed r) = True"
| "is_net (NetCreateRecord r) = True"
| "is_net e = False"

fun is_create :: "event \<Rightarrow> bool" where
  "is_create (NetCreateRecord r) = True"
| "is_create e = False"

fun is_fetch :: "event \<Rightarrow> bool" where
  "is_fetch (NetGetAuthorFeed r) = True"
| "is_fetch e = False"

text \<open>
  The environment of a run: the two credentials of \<open>process.env\<close>, the module's
  directory and the path functions, the file system, the feed parser, the clock, and the
  service. An answer of the service may depend on everything that happened before the
  request, so each endpoint takes the trace so far.
\<close>

record env =
  BLUESKY_USERNAME :: "jsstr option"
  BLUESKY_PASSWORD :: "jsstr option"
  dirname :: jsstr
  path_isAbsolute :: "jsstr \<Rightarrow> bool"
  path_join :: "jsstr \<Rightarrow> jsstr \<Rightarrow> jsstr"
  readFileSync :: "jsstr \<Rightarrow> js_error + jsstr"
  parseString :: "jsstr \<Rightarrow> js_error + rss_feed"
  now :: jsstr
  login :: "event list \<Rightarrow> jsstr \<Rightarrow> jsstr \<Rightarrow> js_error + agent"
  getAuthorFeed :: "event list \<Rightarrow> feed_request \<Rightarrow> feed_response"
  createRecord :: "event list \<Rightarrow> create_request \<Rightarrow> js_error + jsstr"

section \<open>getBlueskyAgent\<close>

definition getBlueskyAgent :: "env \<Rightarrow> event list \<Rightarrow> (js_error + agent) \<times> event list" where
  "getBlueskyAgent e tr =
     (if \<not> truthy (BLUESKY_USERNAME e) then
        (Inl (Error (js ''BLUESKY_USERNAME environment variable is not set'')), tr)
      else if \<not> truthy (BLUESKY_PASSWORD e) then
        (Inl (Error (js ''BLUESKY_PASSWORD environment variable is not set'')), tr)
      else
        (login e tr (or_empty (BLUESKY_USERNAME e)) (or_empty (BLUESKY_PASSWORD e)),
         tr @ [NetLogin (or_empty (BLUESKY_USERNAME e)) (or_empty (BLUESKY_PASSWORD e))]))"

section \<open>getLatestRSSPost\<close>

definition getLatestRSSPost ::
  "env \<Rightarrow> jsstr \<Rightarrow> event list \<Rightarrow> (js_error + latest_post) \<times> event list" where
  "getLatestRSSPost e rssUrl tr =
     (case readFileSync e rssUrl of
        Inl err \<Rightarrow> (Inl err, tr @ [ReadFile rssUrl])
      | Inr rssContent \<Rightarrow>
         (case parseString e rssContent of
            Inl err \<Rightarrow> (Inl err, tr @ [ReadFile rssUrl])
          | Inr fd \<Rightarrow>
             (case items fd of
                None \<Rightarrow> (Inl (Error (js ''No items found in RSS feed'')), tr @ [ReadFile rssUrl])
              | Some [] \<Rightarrow> (Inl (Error (js ''No items found in RSS feed'')), tr @ [ReadFile rssUrl])
              | Some (latestPost # others) \<Rightarrow>
                 (Inr \<lparr>title = or_empty (item_title latestPost),
                       link = or_empty (item_link latestPost)\<rparr>,
                  tr @ [ReadFile rssUrl]))))"

section \<open>hasLinkBeenPosted\<close>

definition LINK_TYPE :: jsstr where
  "LINK_TYPE = js ''app.bsky.richtext.facet#link''"

definition maxPostsToCheck :: nat where
  "maxPostsToCheck = 100"

text \<open>The innermost loop, over the features of one facet; \<open>True\<close> is \<open>return true\<close>.\<close>

primrec features_loop :: "jsstr \<Rightarrow> feature list \<Rightarrow> bool" where
  "features_loop lnk [] = False"
| "features_loop lnk (f # fs) =
     (if dollar_type f = Some LINK_TYPE \<and> uri f = Some lnk then True
      else features_loop lnk fs)"

primrec facets_loop :: "jsstr \<Rightarrow> facet list \<Rightarrow> bool" where
  "facets_loop lnk [] = False"
| "facets_loop lnk (fc # fcs) =
     (case features fc of
        None \<Rightarrow> facets_loop lnk fcs
      | Some fs \<Rightarrow> (if features_loop lnk fs then True else facets_loop lnk fcs))"

text \<open>The two checks made on one readable post record.\<close>

definition post_has_link :: "jsstr \<Rightarrow> post_record \<Rightarrow> bool" where
  "post_has_link lnk p =
     (if truthy (ptext p) \<and> includes_js (or_empty (ptext p)) lnk then True
      else (case facets p of None \<Rightarrow> False | Some fcs \<Rightarrow> facets_loop lnk fcs))"

text \<open>\<open>feedItem.post?.record\<close>\<close>

definition record_of :: "feed_item \<Rightarrow> post_record option" where
  "record_of it = (case post it of None \<Rightarrow> None | Some pv \<Rightarrow> precord pv)"

text \<open>
  The loop over the items of one page. It ends with \<open>return true\<close>, with a thrown
  \<open>TypeError\<close> (reading \<open>.post\<close> of a \<open>null\<close> element) or at the end of the page; each
  outcome carries the value \<open>postsChecked\<close> has then.
\<close>

datatype page_outcome = ReturnTrue nat | Thrown js_error nat | Completed nat

fun feed_loop :: "jsstr \<Rightarrow> feed_item option list \<Rightarrow> nat \<Rightarrow> page_outcome" where
  "feed_loop lnk [] postsChecked = Completed postsChecked"
| "feed_loop lnk (None # rest) postsChecked = Thrown TypeError (Suc postsChecked)"
| "feed_loop lnk (Some feedItem # rest) postsChecked =
     (case record_of feedItem of
        None \<Rightarrow> feed_loop lnk rest (Suc postsChecked)
      | Some p \<Rightarrow>
         (if post_has_link lnk p then ReturnTrue (Suc postsChecked)
          else feed_loop lnk rest (Suc postsChecked)))"

text \<open>
  The \<open>while\<close> loop of the \<open>try\<close> block. It need not terminate (a service that keeps
  answering empty pages with a cursor keeps it running), so not returning is \<open>None\<close>.
  The result is the completion of the block (a thrown error or the returned boolean),
  the final \<open>postsChecked\<close> and the trace.
\<close>

partial_function (option) scan_loop ::
  "env \<Rightarrow> jsstr \<Rightarrow> jsstr \<Rightarrow> jsstr option \<Rightarrow> bool \<Rightarrow> nat \<Rightarrow> event list
     \<Rightarrow> ((js_error + bool) \<times> nat \<times> event list) option" where
  "scan_loop e hdl lnk cur hasMore postsChecked tr =
     (if hasMore \<and> postsChecked < maxPostsToCheck then
        (case getAuthorFeed e tr \<lparr>actor = hdl, limit = 100, req_cursor = cur\<rparr> of
           Rejected err \<Rightarrow>
             Some (Inl err, postsChecked,
                   tr @ [NetGetAuthorFeed \<lparr>actor = hdl, limit = 100, req_cursor = cur\<rparr>])
         | Response None \<Rightarrow>
             Some (Inr False, postsChecked,
                   tr @ [NetGetAuthorFeed \<lparr>actor = hdl, limit = 100, req_cursor = cur\<rparr>])
         | Response (Some d) \<Rightarrow>
            (case feed d of
               FeedMissing \<Rightarrow>
                 Some (Inr False, postsChecked,
                       tr @ [NetGetAuthorFeed \<lparr>actor = hdl, limit = 100, req_cursor = cur\<rparr>])
             | FeedNotIterable \<Rightarrow>
                 Some (Inl TypeError, postsChecked,
                       tr @ [NetGetAuthorFeed \<lparr>actor = hdl, limit = 100, req_cursor = cur\<rparr>])
             | Feed its \<Rightarrow>
                (case feed_loop lnk its postsChecked of
                   ReturnTrue n \<Rightarrow>
                     Some (Inr True, n,
                           tr @ [NetGetAuthorFeed \<lparr>actor = hdl, limit = 100, req_cursor = cur\<rparr>])
                 | Thrown err n \<Rightarrow>
                     Some (Inl err, n,
                           tr @ [NetGetAuthorFeed \<lparr>actor = hdl, limit = 100, req_cursor = cur\<rparr>])
                 | Completed n \<Rightarrow>
                     scan_loop e hdl lnk (cursor d) (truthy (cursor d)) n
                       (tr @ [NetGetAuthorFeed \<lparr>actor = hdl, limit = 100, req_cursor = cur\<rparr>]))))
      else Some (Inr False, postsChecked, tr))"

text \<open>
  The whole function: \<open>agent.session.handle || agent.session.did\<close> (a \<open>TypeError\<close>
  when the agent has no session), the loop, and the \<open>catch\<close> that turns any thrown
  error into a warning and \<open>false\<close>.
\<close>

definition session_handle :: "session \<Rightarrow> jsstr" where
  "session_handle s = (if truthy (handle s) then or_empty (handle s) else did s)"

definition scan_body ::
  "env \<Rightarrow> agent \<Rightarrow> jsstr \<Rightarrow> event list \<Rightarrow> ((js_error + bool) \<times> nat \<times> event list) option" where
  "scan_body e ag lnk tr =
     (case agent_session ag of
        None \<Rightarrow> Some (Inl TypeError, 0, tr)
      | Some s \<Rightarrow> scan_loop e (session_handle s) lnk None True 0 tr)"

definition hasLinkBeenPosted ::
  "env \<Rightarrow> agent \<Rightarrow> jsstr \<Rightarrow> event list \<Rightarrow> ((js_error + bool) \<times> event list) option" where
  "hasLinkBeenPosted e ag lnk tr =
     (case scan_body e ag lnk tr of
        None \<Rightarrow> None
      | Some (Inl err, n, tr') \<Rightarrow>
          Some (Inr False,
                tr' @ [ConsoleWarn (js ''Warning: Could not search for previous posts:'') err])
      | Some (Inr b, n, tr') \<Rightarrow> Some (Inr b, tr'))"

section \<open>sendBlueskyPost\<close>

text \<open>The record built between the login and the submission (source lines 185 to 223).\<close>

definition build_record :: "jsstr \<Rightarrow> jsstr option \<Rightarrow> jsstr \<Rightarrow> out_record" where
  "build_record txt url created =
     (if truthy url then
        (let u = or_empty url; urlIndex = indexOf txt u in
         if urlIndex \<noteq> - 1 then
           \<lparr>out_type = js ''app.bsky.feed.post'', out_text = txt, createdAt = created,
            out_facets = Some [\<lparr>index = \<lparr>byteStart = urlIndex,
                                          byteEnd = urlIndex + int (length u)\<rparr>,
                                link_features = [\<lparr>dollar_type = Some LINK_TYPE, uri = Some u\<rparr>]\<rparr>]\<rparr>
         else
           (let separator = (if endsWith txt (js '' '') then [] else js '' '');
                new_text = txt @ separator @ u in
            \<lparr>out_type = js ''app.bsky.feed.post'', out_text = new_text, createdAt = created,
             out_facets = Some [\<lparr>index = \<lparr>byteStart = int (length new_text) - int (length u),
                                           byteEnd = int (length new_text)\<rparr>,
                                 link_features = [\<lparr>dollar_type = Some LINK_TYPE, uri = Some u\<rparr>]\<rparr>]\<rparr>))
      else
        \<lparr>out_type = js ''app.bsky.feed.post'', out_text = txt, createdAt = created,
         out_facets = None\<rparr>)"

definition sendBlueskyPost ::
  "env \<Rightarrow> jsstr \<Rightarrow> jsstr option \<Rightarrow> event list \<Rightarrow> (js_error + jsstr) \<times> event list" where
  "sendBlueskyPost e txt url tr =
     (if txt = [] then (Inl (Error (js ''Post text is required'')), tr)
      else
        (case getBlueskyAgent e tr of
           (Inl err, tr1) \<Rightarrow> (Inl err, tr1)
         | (Inr ag, tr1) \<Rightarrow>
            (case agent_session ag of
               None \<Rightarrow> (Inl TypeError, tr1)
             | Some s \<Rightarrow>
                (createRecord e tr1
                   \<lparr>repo = did s, collection = js ''app.bsky.feed.post'',
                    new_record = build_record txt url (now e)\<rparr>,
                 tr1 @ [NetCreateRecord
                   \<lparr>repo = did s, collection = js ''app.bsky.feed.post'',
                    new_record = build_record txt url (now e)\<rparr>]))))"

section \<open>postLatestToBluesky\<close>

datatype outcome = Returned | Exited nat

text \<open>The \<open>try\<close> block: its completion and the trace.\<close>

definition publish_body ::
  "env \<Rightarrow> jsstr \<Rightarrow> ((js_error + unit) \<times> event list) option" where
  "publish_body e rssPath =
     (case getLatestRSSPost e rssPath [ConsoleLog [js ''Reading RSS feed...'']] of
        (Inl err, tr0) \<Rightarrow> Some (Inl err, tr0)
      | (Inr latestPost, tr0) \<Rightarrow>
         (if link latestPost = [] then Some (Inl (Error (js ''Latest RSS post has no link'')), tr0)
          else
            (case getBlueskyAgent e
                    (tr0 @ [ConsoleLog [js ''Latest post: '' @ title latestPost],
                            ConsoleLog [js ''Link: '' @ link latestPost]]) of
               (Inl err, tr1) \<Rightarrow> Some (Inl err, tr1)
             | (Inr ag, tr1) \<Rightarrow>
                (case hasLinkBeenPosted e ag (link latestPost)
                        (tr1 @ [ConsoleLog [js ''Checking if link has been posted before...'']]) of
                   None \<Rightarrow> None
                 | Some (Inl err, tr2) \<Rightarrow> Some (Inl err, tr2)
                 | Some (Inr alreadyPosted, tr2) \<Rightarrow>
                    (if alreadyPosted then
                       Some (Inr (),
                             tr2 @ [ConsoleLog [js ''This link has already been posted. Skipping.'']])
                     else
                       (case sendBlueskyPost e
                               (if title latestPost = [] then js ''New post'' else title latestPost)
                               (Some (link latestPost))
                               (tr2 @ [ConsoleLog [js ''Posting to Bluesky...'']]) of
                          (Inl err, tr3) \<Rightarrow> Some (Inl err, tr3)
                        | (Inr response_uri, tr3) \<Rightarrow>
                            Some (Inr (),
                                  tr3 @ [ConsoleLog [js ''Post created successfully:'',
                                                     response_uri]])))))))"

definition rssPath :: "env \<Rightarrow> jsstr \<Rightarrow> jsstr" where
  "rssPath e rssUrl = (if path_isAbsolute e rssUrl then rssUrl else path_join e (dirname e) rssUrl)"

definition postLatestToBluesky :: "env \<Rightarrow> jsstr \<Rightarrow> (outcome \<times> event list) option" where
  "postLatestToBluesky e rssUrl =
     (case publish_body e (rssPath e rssUrl) of
        None \<Rightarrow> None
      | Some (Inl err, tr) \<Rightarrow> Some (Exited 1, tr @ [ConsoleError (js ''Error:'') err, ProcessExit 1])
      | Some (Inr u, tr) \<Rightarrow> Some (Returned, tr))"

section \<open>The vocabulary of the properties\<close>

text \<open>
  What the specification calls a published link: the item has a readable post record
  whose text contains the link as a substring, or one of whose facets has a feature of
  the link type with exactly this URI.
\<close>

definition mentions :: "jsstr \<Rightarrow> feed_item \<Rightarrow> bool" where
  "mentions lnk it =
     (case record_of it of
        None \<Rightarrow> False
      | Some p \<Rightarrow>
          (case ptext p of None \<Rightarrow> False | Some t \<Rightarrow> sublist lnk t) \<or>
          (case facets p of
             None \<Rightarrow> False
           | Some fcs \<Rightarrow>
               list_ex (\<lambda>fc. case features fc of
                                None \<Rightarrow> False
                              | Some fs \<Rightarrow>
                                  list_ex (\<lambda>f. dollar_type f = Some LINK_TYPE \<and> uri f = Some lnk) fs)
                 fcs))"

text \<open>
  A well-formed page is written as its items and its cursor. \<open>served\<close> says that the
  service answers the successive requests of a scan (the first with the cursor \<open>cur\<close>,
  each later one with the cursor of the page before) with the pages of a list, in order;
  \<open>requests\<close> are those requests, and \<open>checked\<close> is the number of items on the pages,
  added to \<open>n\<close>.
\<close>

type_synonym page = "feed_item list \<times> jsstr option"

definition page_response :: "page \<Rightarrow> feed_response" where
  "page_response pg = Response (Some \<lparr>feed = Feed (map Some (fst pg)), cursor = snd pg\<rparr>)"

fun served :: "env \<Rightarrow> jsstr \<Rightarrow> event list \<Rightarrow> jsstr option \<Rightarrow> page list \<Rightarrow> bool" where
  "served e hdl tr cur [] = True"
| "served e hdl tr cur (pg # pgs) =
     (getAuthorFeed e tr \<lparr>actor = hdl, limit = 100, req_cursor = cur\<rparr> = page_response pg \<and>
      served e hdl (tr @ [NetGetAuthorFeed \<lparr>actor = hdl, limit = 100, req_cursor = cur\<rparr>])
        (snd pg) pgs)"

fun requests :: "jsstr \<Rightarrow> jsstr option \<Rightarrow> page list \<Rightarrow> event list" where
  "requests hdl cur [] = []"
| "requests hdl cur (pg # pgs) =
     NetGetAuthorFeed \<lparr>actor = hdl, limit = 100, req_cursor = cur\<rparr> # requests hdl (snd pg) pgs"

definition checked :: "nat \<Rightarrow> page list \<Rightarrow> nat" where
  "checked n pgs = n + sum_list (map (\<lambda>pg. length (fst pg)) pgs)"

definition last_cursor :: "jsstr option \<Rightarrow> page list \<Rightarrow> jsstr option" where
  "last_cursor cur pgs = (if pgs = [] then cur else snd (last pgs))"

section \<open>Example values\<close>

text \<open>Concrete items, services and environments, for the instances shown below.\<close>

definition ex_link :: jsstr where
  "ex_link = js ''https://x.test/a''"

definition cafe_text :: jsstr where
  "cafe_text = js ''Caf'' @ [0xE9] @ js '' https://x.test/a''"

definition tab_text :: jsstr where
  "tab_text = js ''Caf'' @ [0xE9, 0x09]"

definition ex_agent :: agent where
  "ex_agent = \<lparr>agent_session = Some \<lparr>handle = Some (js ''me.test''), did = js ''did:plc:me''\<rparr>\<rparr>"

definition text_item :: "jsstr \<Rightarrow> feed_item" where
  "text_item t = \<lparr>post = Some \<lparr>precord = Some \<lparr>ptext = Some t, facets = None\<rparr>\<rparr>\<rparr>"

definition facet_item :: "jsstr \<Rightarrow> feed_item" where
  "facet_item u =
     \<lparr>post = Some \<lparr>precord = Some
        \<lparr>ptext = Some (js ''new post''),
         facets = Some [\<lparr>features = Some [\<lparr>dollar_type = Some LINK_TYPE, uri = Some u\<rparr>]\<rparr>]\<rparr>\<rparr>\<rparr>"


text \<open>A service that hands out the pages of a list, one per request, then fails.\<close>

definition paged :: "page list \<Rightarrow> event list \<Rightarrow> feed_request \<Rightarrow> feed_response" where
  "paged pgs tr req =
     (case drop (length (filter is_fetch tr)) pgs of
        [] \<Rightarrow> Rejected (Error (js ''offline''))
      | pg # rest \<Rightarrow> page_response pg)"

definition ex_env :: "rss_feed \<Rightarrow> (event list \<Rightarrow> feed_request \<Rightarrow> feed_response) \<Rightarrow> env" where
  "ex_env fd svc =
     \<lparr>BLUESKY_USERNAME = Some (js ''me.test''),
      BLUESKY_PASSWORD = Some (js ''secret''),
      dirname = js ''/app/src'',
      path_isAbsolute = (\<lambda>p. take 1 p = js ''/''),
      path_join = (\<lambda>a b. a @ js ''/'' @ b),
      readFileSync = (\<lambda>p. Inr (js ''<rss/>'')),
      parseString = (\<lambda>s. Inr fd),
      now = js ''2026-01-01T00:00:00.000Z'',
      login = (\<lambda>tr u p. Inr ex_agent),
      getAuthorFeed = svc,
      createRecord = (\<lambda>tr r. Inr (js ''at://did:plc:me/app.bsky.feed.post/1''))\<rparr>"

definition ex_feed :: rss_feed where
  "ex_feed = \<lparr>items = Some [\<lparr>item_title = Some (js ''Hello''), item_link = Some ex_link\<rparr>,
                           \<lparr>item_title = Some (js ''Older''), item_link = Some (js ''https://x.test/b'')\<rparr>]\<rparr>"

definition quiet_item :: feed_item where
  "quiet_item = text_item (js ''hello'')"

definition req0 :: feed_request where
  "req0 = \<lparr>actor = js ''me.test'', limit = 100, req_cursor = None\<rparr>"

definition req1 :: feed_request where
  "req1 = \<lparr>actor = js ''me.test'', limit = 100, req_cursor = Some (js ''c1'')\<rparr>"

definition full_page :: page where
  "full_page = (replicate 100 quiet_item, Some (js ''c1''))"

definition dup_page :: page where
  "dup_page = ([facet_item ex_link], None)"

definition short_page :: page where
  "short_page = (replicate 60 quiet_item, Some (js ''c1''))"

definition late_page :: page where
  "late_page = (replicate 49 quiet_item @ [facet_item ex_link], None)"

definition page99 :: page where
  "page99 = (replicate 99 quiet_item, Some (js ''c1''))"

definition tail_page :: page where
  "tail_page = ([quiet_item, text_item (js ''read https://x.test/a today'')], None)"

definition hit_page :: page where
  "hit_page = ([quiet_item, facet_item ex_link, quiet_item], Some (js ''c1''))"


definition one_page :: page where
  "one_page = ([quiet_item], None)"

definition ex_created :: create_request where
  "ex_created =
     \<lparr>repo = js ''did:plc:me'', collection = js ''app.bsky.feed.post'',
      new_record =
        \<lparr>out_type = js ''app.bsky.feed.post'', out_text = js ''Hello https://x.test/a'',
         createdAt = js ''2026-01-01T00:00:00.000Z'',
         out_facets = Some [\<lparr>index = \<lparr>byteStart = 6, byteEnd = 22\<rparr>,
                             link_features = [\<lparr>dollar_type = Some LINK_TYPE,
                                               uri = Some ex_link\<rparr>]\<rparr>]\<rparr>\<rparr>"

text \<open>Services whose answer lacks the feed, or the data altogether.\<close>

definition no_feed :: "event list \<Rightarrow> feed_request \<Rightarrow> feed_response" where
  "no_feed tr req = Response (Some \<lparr>feed = FeedMissing, cursor = None\<rparr>)"

definition no_data :: "event list \<Rightarrow> feed_request \<Rightarrow> feed_response" where
  "no_data tr req = Response None"

text \<open>The error of a missing credential (the specification's ConfigError).\<close>

definition ConfigError :: "js_error \<Rightarrow> bool" where
  "ConfigError err =
     (err = Error (js ''BLUESKY_USERNAME environment variable is not set'') \<or>
      err = Error (js ''BLUESKY_PASSWORD environment variable is not set''))"

section \<open>Strings\<close>

lemma indexOf_from_none: "indexOf_from t u k = - 1 \<longleftrightarrow> \<not> sublist u t"
proof (induction t arbitrary: k)
  case Nil
  show ?case by simp
next
  case (Cons c cs)
  show ?case
    by (simp add: Cons.IH sublist_Cons_right)
qed

lemma includes_js_sublist: "includes_js t u \<longleftrightarrow> sublist u t"
  by (simp add: includes_js_def indexOf_def indexOf_from_none)

lemma indexOf_from_first:
  "sublist u t \<Longrightarrow>
   \<exists>i. indexOf_from t u k = int (k + i) \<and> i + length u \<le> length t \<and>
       take (length u) (drop i t) = u \<and> (\<forall>j<i. take (length u) (drop j t) \<noteq> u)"
proof (induction t arbitrary: k)
  case Nil
  then show ?case by simp
next
  case (Cons c cs)
  show ?case
  proof (cases "prefix u (c # cs)")
    case True
    then have "take (length u) (c # cs) = u"
      by (metis append_eq_conv_conj prefix_def)
    moreover have "length u \<le> length (c # cs)" using True by (rule prefix_length_le)
    ultimately show ?thesis using True
      by (intro exI[of _ 0]) simp
  next
    case False
    then have "sublist u cs" using Cons.prems by (simp add: sublist_Cons_right)
    from Cons.IH[OF this, of "Suc k"] obtain i where
      i: "indexOf_from cs u (Suc k) = int (Suc k + i)" "i + length u \<le> length cs"
         "take (length u) (drop i cs) = u" "\<forall>j<i. take (length u) (drop j cs) \<noteq> u"
      by blast
    have nz: "take (length u) (c # cs) \<noteq> u"
      using False by (metis take_is_prefix)
    have "\<forall>j<Suc i. take (length u) (drop j (c # cs)) \<noteq> u"
    proof (intro allI impI)
      fix j assume "j < Suc i"
      then show "take (length u) (drop j (c # cs)) \<noteq> u"
        using nz i(4) by (cases j) auto
    qed
    then show ?thesis using False i
      by (intro exI[of _ "Suc i"]) simp
  qed
qed

lemma unit_bytes_ascii: "c < 0x80 \<Longrightarrow> unit_bytes c = 1"
  by (simp add: unit_bytes_def)

lemma ascii_not_high: "c < 0x80 \<Longrightarrow> \<not> high_surrogate c"
  by (simp add: high_surrogate_def word_less_nat_alt word_le_nat_alt)

lemma utf8_length_ascii: "ascii s \<Longrightarrow> utf8_length s = length s"
  by (induction s rule: utf8_length.induct)
     (simp_all add: ascii_def unit_bytes_ascii ascii_not_high)

lemma ascii_append: "ascii (s @ t) \<longleftrightarrow> ascii s \<and> ascii t"
  by (simp add: ascii_def)

lemma ascii_take: "ascii s \<Longrightarrow> ascii (take n s)"
  by (metis append_take_drop_id ascii_append)

section \<open>The loops of the duplicate scan\<close>

lemma features_loop_ex:
  "features_loop lnk fs = list_ex (\<lambda>f. dollar_type f = Some LINK_TYPE \<and> uri f = Some lnk) fs"
  by (induction fs) auto

lemma facets_loop_ex:
  "facets_loop lnk fcs =
     list_ex (\<lambda>fc. case features fc of None \<Rightarrow> False
                    | Some fs \<Rightarrow> list_ex (\<lambda>f. dollar_type f = Some LINK_TYPE \<and> uri f = Some lnk) fs) fcs"
  by (induction fcs) (auto simp: features_loop_ex split: option.splits)

lemma post_has_link_mentions:
  assumes "lnk \<noteq> []" and "record_of it = Some p"
  shows "post_has_link lnk p \<longleftrightarrow> mentions lnk it"
proof -
  have "(truthy (ptext p) \<and> includes_js (or_empty (ptext p)) lnk) \<longleftrightarrow>
        (case ptext p of None \<Rightarrow> False | Some t \<Rightarrow> sublist lnk t)"
    using assms(1)
    by (auto simp: truthy_def or_empty_def includes_js_sublist split: option.splits)
  then show ?thesis
    using assms(2)
    by (auto simp: post_has_link_def mentions_def facets_loop_ex split: option.splits)
qed

lemma post_has_link_imp_mentions:
  assumes "record_of it = Some p" and "post_has_link lnk p"
  shows "mentions lnk it"
proof -
  have "truthy (ptext p) \<and> includes_js (or_empty (ptext p)) lnk \<Longrightarrow>
        (case ptext p of None \<Rightarrow> False | Some t \<Rightarrow> sublist lnk t)"
    by (auto simp: truthy_def or_empty_def includes_js_sublist split: option.splits)
  then show ?thesis
    using assms
    by (auto simp: post_has_link_def mentions_def facets_loop_ex split: option.splits if_splits)
qed

lemma mentions_no_record: "record_of it = None \<Longrightarrow> \<not> mentions lnk it"
  by (simp add: mentions_def)

lemma feed_loop_quiet:
  "\<not> list_ex (mentions lnk) its \<Longrightarrow>
   feed_loop lnk (map Some its) n = Completed (n + length its)"
proof (induction its arbitrary: n)
  case Nil
  show ?case by simp
next
  case (Cons it its)
  then show ?case
    by (cases "record_of it") (auto dest: post_has_link_imp_mentions)
qed

lemma feed_loop_hit:
  "lnk \<noteq> [] \<Longrightarrow> list_ex (mentions lnk) its \<Longrightarrow>
   feed_loop lnk (map Some its) n =
     ReturnTrue (Suc (n + length (takeWhile (\<lambda>it. \<not> mentions lnk it) its)))"
proof (induction its arbitrary: n)
  case Nil
  then show ?case by simp
next
  case (Cons it its)
  then show ?case
    by (cases "record_of it") (auto simp: post_has_link_mentions mentions_no_record)
qed

lemma scan_loop_stop:
  "\<not> (hm \<and> n < 100) \<Longrightarrow> scan_loop e hdl lnk cur hm n tr = Some (Inr False, n, tr)"
  by (subst scan_loop.simps) (auto simp: maxPostsToCheck_def)

lemma scan_loop_quiet_page:
  assumes "getAuthorFeed e tr \<lparr>actor = hdl, limit = 100, req_cursor = cur\<rparr> = page_response pg"
    and "\<not> list_ex (mentions lnk) (fst pg)" and "n < 100"
  shows "scan_loop e hdl lnk cur True n tr =
         scan_loop e hdl lnk (snd pg) (truthy (snd pg)) (n + length (fst pg))
           (tr @ [NetGetAuthorFeed \<lparr>actor = hdl, limit = 100, req_cursor = cur\<rparr>])"
  using assms
  by (subst scan_loop.simps) (simp add: maxPostsToCheck_def page_response_def feed_loop_quiet)

lemma scan_loop_quiet_pages:
  "served e hdl tr cur pgs \<Longrightarrow> pgs \<noteq> [] \<Longrightarrow>
         \<forall>pg\<in>set pgs. \<not> list_ex (mentions lnk) (fst pg) \<Longrightarrow>
         \<forall>pg\<in>set (butlast pgs). truthy (snd pg) \<Longrightarrow> checked n (butlast pgs) < 100 \<Longrightarrow>
         scan_loop e hdl lnk cur True n tr =
         scan_loop e hdl lnk (snd (last pgs)) (truthy (snd (last pgs))) (checked n pgs)
           (tr @ requests hdl cur pgs)"
proof (induction pgs arbitrary: tr cur n)
  case Nil
  then show ?case by simp
next
  case (Cons pg pgs)
  have n: "n < 100" using Cons.prems(5) by (simp add: checked_def split: if_splits)
  have one: "scan_loop e hdl lnk cur True n tr =
         scan_loop e hdl lnk (snd pg) (truthy (snd pg)) (n + length (fst pg))
           (tr @ [NetGetAuthorFeed \<lparr>actor = hdl, limit = 100, req_cursor = cur\<rparr>])"
    using Cons.prems n by (intro scan_loop_quiet_page) simp_all
  show ?case
  proof (cases "pgs = []")
    case True
    then show ?thesis using one by (simp add: checked_def)
  next
    case False
    then have t: "truthy (snd pg)" using Cons.prems(4) by simp
    have c: "checked (n + length (fst pg)) (butlast pgs) < 100"
      using Cons.prems(5) False by (simp add: checked_def)
    have "scan_loop e hdl lnk (snd pg) True (n + length (fst pg))
            (tr @ [NetGetAuthorFeed \<lparr>actor = hdl, limit = 100, req_cursor = cur\<rparr>]) =
          scan_loop e hdl lnk (snd (last pgs)) (truthy (snd (last pgs)))
            (checked (n + length (fst pg)) pgs)
            ((tr @ [NetGetAuthorFeed \<lparr>actor = hdl, limit = 100, req_cursor = cur\<rparr>]) @
               requests hdl (snd pg) pgs)"
      using Cons.prems False c by (intro Cons.IH) simp_all
    then show ?thesis using one t False by (simp add: checked_def add.assoc)
  qed
qed

section \<open>The feed reader\<close>

text \<open>
  Claim C9. When the feed file is read and parsed, \<open>getLatestRSSPost\<close> fails with the
  error "No items found in RSS feed" if the feed has no items (or no item list); if it
  has at least one item, the result is built from the item at position 0 alone, whatever
  the other items are; and an item whose link is absent or empty is returned normally,
  with the empty link.
\<close>

theorem getLatestRSSPost_first_entry:
  assumes "readFileSync e rssUrl = Inr content" and "parseString e content = Inr fd"
  shows "(items fd = None \<or> items fd = Some [] \<longrightarrow>
            fst (getLatestRSSPost e rssUrl tr) = Inl (Error (js ''No items found in RSS feed''))) \<and>
         (\<forall>first others. items fd = Some (first # others) \<longrightarrow>
            fst (getLatestRSSPost e rssUrl tr) =
              Inr \<lparr>title = or_empty (item_title first), link = or_empty (item_link first)\<rparr>) \<and>
         (\<forall>first others. items fd = Some (first # others) \<and> \<not> truthy (item_link first) \<longrightarrow>
            fst (getLatestRSSPost e rssUrl tr) =
              Inr \<lparr>title = or_empty (item_title first), link = []\<rparr>)"
  using assms
  by (auto simp: getLatestRSSPost_def truthy_def or_empty_def split: option.splits)

theorem getLatestRSSPost_first_entry_witness:
  "fst (getLatestRSSPost
          (ex_env \<lparr>items = Some [\<lparr>item_title = Some (js ''Hello''), item_link = None\<rparr>,
                                 \<lparr>item_title = Some (js ''Older''), item_link = Some ex_link\<rparr>]\<rparr>
             (paged []))
          (js ''/rss.xml'') []) = Inr \<lparr>title = js ''Hello'', link = []\<rparr> \<and>
   fst (getLatestRSSPost (ex_env \<lparr>items = Some []\<rparr> (paged [])) (js ''/rss.xml'') []) =
     Inl (Error (js ''No items found in RSS feed''))"
proof -
  let ?fd = "\<lparr>items = Some [\<lparr>item_title = Some (js ''Hello''), item_link = None\<rparr>,
                            \<lparr>item_title = Some (js ''Older''), item_link = Some ex_link\<rparr>]\<rparr>"
  have r: "readFileSync (ex_env fd (paged [])) (js ''/rss.xml'') = Inr (js ''<rss/>'')" for fd
    by (simp add: ex_env_def)
  have p: "parseString (ex_env fd (paged [])) (js ''<rss/>'') = Inr fd" for fd
    by (simp add: ex_env_def)
  from getLatestRSSPost_first_entry[OF r p, of ?fd "[]"]
       getLatestRSSPost_first_entry[OF r p, of "\<lparr>items = Some []\<rparr>" "[]"]
  show ?thesis by (simp add: truthy_def or_empty_def)
qed

section \<open>Missing credentials\<close>

lemma getLatestRSSPost_trace:
  "snd (getLatestRSSPost e p tr) = tr @ [ReadFile p]"
  by (simp add: getLatestRSSPost_def split: sum.splits option.splits list.splits)

lemma getLatestRSSPost_result:
  "fst (getLatestRSSPost e p tr) = fst (getLatestRSSPost e p [])"
  by (simp add: getLatestRSSPost_def split: sum.splits option.splits list.splits)

lemma getBlueskyAgent_missing:
  assumes "\<not> truthy (BLUESKY_USERNAME e) \<or> \<not> truthy (BLUESKY_PASSWORD e)"
  shows "\<exists>err. ConfigError err \<and> getBlueskyAgent e tr = (Inl err, tr)"
  using assms by (auto simp: getBlueskyAgent_def ConfigError_def)

text \<open>
  Claim C8, as amended. When one of the two credentials is unset or empty,
  \<open>getBlueskyAgent\<close> fails with the error of the missing credential and leaves the
  trace as it was (no network call). \<open>postLatestToBluesky\<close> then always ends with
  \<open>process.exit(1)\<close> after reporting an error, with no network call in its trace; the
  error reported is that of the missing credential whenever the feed gave a latest entry
  with a link (the feed is read before the credentials are looked at).
\<close>

theorem missing_credentials_no_network:
  assumes "\<not> truthy (BLUESKY_USERNAME e) \<or> \<not> truthy (BLUESKY_PASSWORD e)"
  shows "(\<exists>err. ConfigError err \<and> getBlueskyAgent e tr = (Inl err, tr)) \<and>
         (\<exists>err tr'. postLatestToBluesky e rssUrl =
                      Some (Exited 1, tr' @ [ConsoleError (js ''Error:'') err, ProcessExit 1]) \<and>
                    \<not> list_ex is_net tr' \<and>
                    ((\<exists>p. fst (getLatestRSSPost e (rssPath e rssUrl) []) = Inr p \<and> link p \<noteq> [])
                       \<longrightarrow> ConfigError err))"
proof
  show "\<exists>err. ConfigError err \<and> getBlueskyAgent e tr = (Inl err, tr)"
    using assms by (rule getBlueskyAgent_missing)
next
  let ?tr0 = "[ConsoleLog [js ''Reading RSS feed...'']]"
  let ?path = "rssPath e rssUrl"
  obtain r tr1 where g: "getLatestRSSPost e ?path ?tr0 = (r, tr1)"
    by (cases "getLatestRSSPost e ?path ?tr0")
  have tr1: "tr1 = ?tr0 @ [ReadFile ?path]"
    using getLatestRSSPost_trace[of e ?path ?tr0] g by simp
  have r: "fst (getLatestRSSPost e ?path []) = r"
    using getLatestRSSPost_result[of e ?path ?tr0] g by simp
  show "\<exists>err tr'. postLatestToBluesky e rssUrl =
                      Some (Exited 1, tr' @ [ConsoleError (js ''Error:'') err, ProcessExit 1]) \<and>
                    \<not> list_ex is_net tr' \<and>
                    ((\<exists>p. fst (getLatestRSSPost e (rssPath e rssUrl) []) = Inr p \<and> link p \<noteq> [])
                       \<longrightarrow> ConfigError err)"
  proof (cases r)
    case (Inl err)
    then have "postLatestToBluesky e rssUrl =
                 Some (Exited 1, tr1 @ [ConsoleError (js ''Error:'') err, ProcessExit 1])"
      using g by (simp add: postLatestToBluesky_def publish_body_def)
    then show ?thesis using tr1 r Inl by (intro exI[of _ err] exI[of _ tr1]) simp
  next
    case (Inr p)
    show ?thesis
    proof (cases "link p = []")
      case True
      then have "postLatestToBluesky e rssUrl =
                 Some (Exited 1, tr1 @ [ConsoleError (js ''Error:'')
                                          (Error (js ''Latest RSS post has no link'')), ProcessExit 1])"
        using g Inr by (simp add: postLatestToBluesky_def publish_body_def)
      then show ?thesis using tr1 r Inr True
        by (intro exI[of _ "Error (js ''Latest RSS post has no link'')"] exI[of _ tr1]) simp
    next
      case False
      let ?tr2 = "tr1 @ [ConsoleLog [js ''Latest post: '' @ title p],
                         ConsoleLog [js ''Link: '' @ link p]]"
      from getBlueskyAgent_missing[OF assms, of ?tr2] obtain err where
        err: "ConfigError err" "getBlueskyAgent e ?tr2 = (Inl err, ?tr2)" by blast
      have "postLatestToBluesky e rssUrl =
                 Some (Exited 1, ?tr2 @ [ConsoleError (js ''Error:'') err, ProcessExit 1])"
        using g Inr False err(2) by (simp add: postLatestToBluesky_def publish_body_def)
      then show ?thesis using tr1 err(1)
        by (intro exI[of _ err] exI[of _ ?tr2]) simp
    qed
  qed
qed

theorem missing_credentials_no_network_witness:
  "(\<exists>err. ConfigError err \<and>
      getBlueskyAgent ((ex_env ex_feed (paged []))\<lparr>BLUESKY_PASSWORD := Some []\<rparr>) [] = (Inl err, [])) \<and>
   (\<exists>err tr'. postLatestToBluesky ((ex_env ex_feed (paged []))\<lparr>BLUESKY_PASSWORD := Some []\<rparr>)
                  (js ''/rss.xml'') =
                Some (Exited 1, tr' @ [ConsoleError (js ''Error:'') err, ProcessExit 1]) \<and>
              \<not> list_ex is_net tr' \<and> ConfigError err)"
proof -
  let ?e = "(ex_env ex_feed (paged []))\<lparr>BLUESKY_PASSWORD := Some []\<rparr>"
  have h: "\<not> truthy (BLUESKY_USERNAME ?e) \<or> \<not> truthy (BLUESKY_PASSWORD ?e)"
    by (simp add: ex_env_def truthy_def)
  have f: "\<exists>p. fst (getLatestRSSPost ?e (rssPath ?e (js ''/rss.xml'')) []) = Inr p \<and> link p \<noteq> []"
    by (simp add: getLatestRSSPost_def ex_env_def ex_feed_def rssPath_def or_empty_def ex_link_def js_def)
  from missing_credentials_no_network[OF h, of "[]" "js ''/rss.xml''"] f
  show ?thesis by blast
qed

text \<open>
  Claim C8 as stated fails: with the user name unset and a feed without items, the run
  fails with the feed's error, which is not the error of a missing credential.
\<close>

theorem missing_credentials_other_error:
  "\<not> truthy (BLUESKY_USERNAME ((ex_env \<lparr>items = Some []\<rparr> (paged []))\<lparr>BLUESKY_USERNAME := None\<rparr>)) \<and>
   postLatestToBluesky ((ex_env \<lparr>items = Some []\<rparr> (paged []))\<lparr>BLUESKY_USERNAME := None\<rparr>)
       (js ''/rss.xml'') =
     Some (Exited 1,
           [ConsoleLog [js ''Reading RSS feed...''], ReadFile (js ''/rss.xml''),
            ConsoleError (js ''Error:'') (Error (js ''No items found in RSS feed'')),
            ProcessExit 1]) \<and>
   \<not> ConfigError (Error (js ''No items found in RSS feed''))"
  by (simp add: postLatestToBluesky_def publish_body_def getLatestRSSPost_def ex_env_def
      rssPath_def truthy_def ConfigError_def js_def)

section \<open>The link facet of the outgoing post\<close>

lemma js_space: "js '' '' = [0x20]"
  by (simp add: js_def)

lemma endsWith_space: "endsWith t [0x20] \<longleftrightarrow> t \<noteq> [] \<and> last t = 0x20"
  by (cases t rule: rev_cases) (auto simp: endsWith_def)

lemma sendBlueskyPost_submits:
  assumes "txt \<noteq> []" and "getBlueskyAgent e tr = (Inr ag, tr1)" and "agent_session ag = Some s"
  shows "snd (sendBlueskyPost e txt url tr) =
           tr1 @ [NetCreateRecord \<lparr>repo = did s, collection = js ''app.bsky.feed.post'',
                                   new_record = build_record txt url (now e)\<rparr>]"
  using assms by (simp add: sendBlueskyPost_def)

text \<open>
  Claim C1, at a text with a character outside ASCII. The claim asks for offsets in
  bytes of the encoded text. For the text "Caf(U+00E9) https://x.test/a" the URL starts at
  code unit 5, and the record \<open>sendBlueskyPost\<close> submits carries \<open>byteStart = 5\<close> and
  \<open>byteEnd = 21\<close>; the text before the URL is 6 bytes long and the URL ends at byte 22.
\<close>

theorem facet_offsets_are_code_units:
  "indexOf cafe_text ex_link = 5 \<and>
   snd (sendBlueskyPost (ex_env ex_feed (paged [])) cafe_text (Some ex_link) []) =
     [NetLogin (js ''me.test'') (js ''secret''),
      NetCreateRecord
        \<lparr>repo = js ''did:plc:me'', collection = js ''app.bsky.feed.post'',
         new_record =
           \<lparr>out_type = js ''app.bsky.feed.post'', out_text = cafe_text,
            createdAt = js ''2026-01-01T00:00:00.000Z'',
            out_facets = Some [\<lparr>index = \<lparr>byteStart = 5, byteEnd = 21\<rparr>,
                                link_features = [\<lparr>dollar_type = Some LINK_TYPE,
                                                  uri = Some ex_link\<rparr>]\<rparr>]\<rparr>\<rparr>] \<and>
   utf8_length (take 5 cafe_text) = 6 \<and>
   utf8_length (take 5 cafe_text) + utf8_length ex_link = 22"
  by (simp add: sendBlueskyPost_def getBlueskyAgent_def build_record_def ex_env_def ex_agent_def
      truthy_def or_empty_def indexOf_def cafe_text_def ex_link_def js_def Let_def
      unit_bytes_def high_surrogate_def low_surrogate_def)

text \<open>
  Claim C6, as amended. When the URL does not occur in the text, the text of the record
  is the given text, one space unless the given text ends with a space character
  (U+0020), and the URL. When text and URL are ASCII, the facet's \<open>byteStart\<close> is the
  byte length of what stands before the appended URL and \<open>byteEnd\<close> is the byte length
  of the whole final text.
\<close>

theorem build_record_appends_url:
  assumes "\<not> sublist u txt"
  shows "out_text (build_record txt (Some u) c) =
           txt @ (if txt \<noteq> [] \<and> last txt = 0x20 then [] else [0x20]) @ u \<and>
         (ascii txt \<and> ascii u \<longrightarrow>
            out_facets (build_record txt (Some u) c) =
              Some [\<lparr>index =
                       \<lparr>byteStart = int (utf8_length
                                           (txt @ (if txt \<noteq> [] \<and> last txt = 0x20 then [] else [0x20]))),
                        byteEnd = int (utf8_length (out_text (build_record txt (Some u) c)))\<rparr>,
                     link_features = [\<lparr>dollar_type = Some LINK_TYPE, uri = Some u\<rparr>]\<rparr>])"
proof -
  have u: "u \<noteq> []" using assms by auto
  have idx: "indexOf txt u = - 1" using assms by (simp add: indexOf_def indexOf_from_none)
  let ?sep = "if txt \<noteq> [] \<and> last txt = 0x20 then [] else [0x20::16 word]"
  have ot: "out_text (build_record txt (Some u) c) = txt @ ?sep @ u"
    using u idx by (simp add: build_record_def truthy_def or_empty_def endsWith_space js_space)
  have fac: "out_facets (build_record txt (Some u) c) =
          Some [\<lparr>index = \<lparr>byteStart = int (length (txt @ ?sep)),
                            byteEnd = int (length (txt @ ?sep @ u))\<rparr>,
                 link_features = [\<lparr>dollar_type = Some LINK_TYPE, uri = Some u\<rparr>]\<rparr>]"
    using u idx by (simp add: build_record_def truthy_def or_empty_def endsWith_space js_space Let_def)
  have asc: "ascii ?sep" by (simp add: ascii_def)
  show ?thesis
  proof (intro conjI impI)
    show "out_text (build_record txt (Some u) c) = txt @ ?sep @ u" by (rule ot)
  next
    assume a: "ascii txt \<and> ascii u"
    then have "utf8_length (txt @ ?sep) = length (txt @ ?sep)"
      and "utf8_length (txt @ ?sep @ u) = length (txt @ ?sep @ u)"
      using asc by (simp_all only: utf8_length_ascii ascii_append)
    then show "out_facets (build_record txt (Some u) c) =
              Some [\<lparr>index =
                       \<lparr>byteStart = int (utf8_length (txt @ ?sep)),
                        byteEnd = int (utf8_length (out_text (build_record txt (Some u) c)))\<rparr>,
                     link_features = [\<lparr>dollar_type = Some LINK_TYPE, uri = Some u\<rparr>]\<rparr>]"
      using fac ot by simp
  qed
qed

theorem build_record_appends_url_witness:
  "out_text (build_record (js ''Check this out'') (Some ex_link) (js ''2026'')) =
     js ''Check this out https://x.test/a'' \<and>
   out_facets (build_record (js ''Check this out'') (Some ex_link) (js ''2026'')) =
     Some [\<lparr>index = \<lparr>byteStart = 15, byteEnd = 31\<rparr>,
            link_features = [\<lparr>dollar_type = Some LINK_TYPE, uri = Some ex_link\<rparr>]\<rparr>] \<and>
   utf8_length (js ''Check this out https://x.test/a'') = 31"
proof -
  have h: "\<not> sublist ex_link (js ''Check this out'')"
    by (simp add: indexOf_from_none[of _ _ 0, symmetric] ex_link_def js_def)
  have a: "ascii (js ''Check this out'') \<and> ascii ex_link"
    by (simp add: ascii_def ex_link_def js_def)
  have l: "utf8_length (js ''Check this out https://x.test/a'') = 31"
    by (simp add: js_def unit_bytes_def high_surrogate_def)
  from build_record_appends_url[OF h, of "js ''2026''"] a l
  show ?thesis by (simp add: ex_link_def js_def unit_bytes_def high_surrogate_def)
qed

text \<open>
  Claim C6 as stated fails for the text "Caf(U+00E9)" followed by a tab: the text ends with
  whitespace, and a space is inserted all the same; and \<open>byteEnd\<close> is 22 where the final
  text is 23 bytes long.
\<close>

theorem build_record_tab_not_whitespace:
  "\<not> sublist ex_link tab_text \<and>
   out_text (build_record tab_text (Some ex_link) (js ''2026'')) = tab_text @ js '' '' @ ex_link \<and>
   out_text (build_record tab_text (Some ex_link) (js ''2026'')) \<noteq> tab_text @ ex_link \<and>
   out_facets (build_record tab_text (Some ex_link) (js ''2026'')) =
     Some [\<lparr>index = \<lparr>byteStart = 6, byteEnd = 22\<rparr>,
            link_features = [\<lparr>dollar_type = Some LINK_TYPE, uri = Some ex_link\<rparr>]\<rparr>] \<and>
   utf8_length (out_text (build_record tab_text (Some ex_link) (js ''2026''))) = 23"
proof -
  have h: "\<not> sublist ex_link tab_text"
    by (simp add: indexOf_from_none[of _ _ 0, symmetric] ex_link_def tab_text_def js_def)
  then have idx: "indexOf tab_text ex_link = - 1" by (simp add: indexOf_def indexOf_from_none)
  have u: "ex_link \<noteq> []" by (simp add: ex_link_def js_def)
  have e: "\<not> endsWith tab_text (js '' '')" by (simp add: endsWith_space js_space tab_text_def)
  have t: "out_text (build_record tab_text (Some ex_link) (js ''2026'')) = tab_text @ js '' '' @ ex_link"
    using idx u e by (simp add: build_record_def truthy_def or_empty_def Let_def)
  have f: "out_facets (build_record tab_text (Some ex_link) (js ''2026'')) =
     Some [\<lparr>index = \<lparr>byteStart = 6, byteEnd = 22\<rparr>,
            link_features = [\<lparr>dollar_type = Some LINK_TYPE, uri = Some ex_link\<rparr>]\<rparr>]"
    using idx u e by (simp add: build_record_def truthy_def or_empty_def Let_def)
       (simp add: tab_text_def ex_link_def js_def)
  have l: "utf8_length (tab_text @ js '' '' @ ex_link) = 23"
    by (simp add: tab_text_def ex_link_def js_def unit_bytes_def high_surrogate_def)
  show ?thesis using h t f l by (simp add: js_def)
qed

lemma ascii_sublist: "sublist u t \<Longrightarrow> ascii t \<Longrightarrow> ascii u"
  by (auto simp: sublist_def ascii_append)

text \<open>
  Where the text is ASCII the offsets of a URL found in the text are byte offsets: the
  text is unchanged, \<open>byteStart\<close> is the byte offset of the first occurrence and
  \<open>byteEnd\<close> is \<open>byteStart\<close> plus the byte length of the URL.
\<close>

theorem build_record_existing_url_ascii:
  assumes "u \<noteq> []" and "sublist u txt" and "ascii txt"
  shows "out_text (build_record txt (Some u) c) = txt \<and>
         (\<exists>i. take (length u) (drop i txt) = u \<and>
              (\<forall>j<i. take (length u) (drop j txt) \<noteq> u) \<and>
              out_facets (build_record txt (Some u) c) =
                Some [\<lparr>index = \<lparr>byteStart = int (utf8_length (take i txt)),
                                  byteEnd = int (utf8_length (take i txt) + utf8_length u)\<rparr>,
                       link_features = [\<lparr>dollar_type = Some LINK_TYPE, uri = Some u\<rparr>]\<rparr>])"
proof -
  from indexOf_from_first[OF assms(2), of 0] obtain i where
    i: "indexOf txt u = int i" "i + length u \<le> length txt"
       "take (length u) (drop i txt) = u" "\<forall>j<i. take (length u) (drop j txt) \<noteq> u"
    by (auto simp: indexOf_def)
  have a: "utf8_length (take i txt) = i"
    using assms(3) i(2) by (simp add: utf8_length_ascii ascii_take)
  have b: "utf8_length u = length u"
    using assms(2,3) by (simp add: utf8_length_ascii ascii_sublist)
  have "out_facets (build_record txt (Some u) c) =
          Some [\<lparr>index = \<lparr>byteStart = int i, byteEnd = int i + int (length u)\<rparr>,
                 link_features = [\<lparr>dollar_type = Some LINK_TYPE, uri = Some u\<rparr>]\<rparr>]"
    using assms(1) i(1) by (simp add: build_record_def truthy_def or_empty_def Let_def)
  moreover have "out_text (build_record txt (Some u) c) = txt"
    using assms(1) i(1) by (simp add: build_record_def truthy_def or_empty_def Let_def)
  ultimately show ?thesis using i(3,4) a b by auto
qed

theorem build_record_existing_url_ascii_witness:
  "out_text (build_record (js ''Check this: https://x.test/a'') (Some ex_link) (js ''2026'')) =
     js ''Check this: https://x.test/a'' \<and>
   out_facets (build_record (js ''Check this: https://x.test/a'') (Some ex_link) (js ''2026'')) =
     Some [\<lparr>index = \<lparr>byteStart = 12, byteEnd = 28\<rparr>,
            link_features = [\<lparr>dollar_type = Some LINK_TYPE, uri = Some ex_link\<rparr>]\<rparr>]"
proof -
  let ?t = "js ''Check this: https://x.test/a''"
  have u: "ex_link \<noteq> []" by (simp add: ex_link_def js_def)
  have s: "sublist ex_link ?t"
    using indexOf_from_none[of ?t ex_link 0] by (simp add: ex_link_def js_def)
  have a: "ascii ?t" by (simp add: ascii_def js_def)
  from build_record_existing_url_ascii[OF u s a, of "js ''2026''"]
  obtain i where i: "take (length ex_link) (drop i ?t) = ex_link"
      "out_facets (build_record ?t (Some ex_link) (js ''2026'')) =
         Some [\<lparr>index = \<lparr>byteStart = int (utf8_length (take i ?t)),
                           byteEnd = int (utf8_length (take i ?t) + utf8_length ex_link)\<rparr>,
                link_features = [\<lparr>dollar_type = Some LINK_TYPE, uri = Some ex_link\<rparr>]\<rparr>]"
      and t: "out_text (build_record ?t (Some ex_link) (js ''2026'')) = ?t"
    by blast
  have "out_facets (build_record ?t (Some ex_link) (js ''2026'')) =
     Some [\<lparr>index = \<lparr>byteStart = 12, byteEnd = 28\<rparr>,
            link_features = [\<lparr>dollar_type = Some LINK_TYPE, uri = Some ex_link\<rparr>]\<rparr>]"
    by (simp add: build_record_def truthy_def or_empty_def Let_def indexOf_def ex_link_def js_def)
  then show ?thesis using t by simp
qed

section \<open>Traces of the duplicate scan\<close>

lemma scan_loop_trace:
  assumes "scan_loop e hdl lnk cur hm n tr = Some res"
  shows "\<exists>reqs. snd (snd res) = tr @ map NetGetAuthorFeed reqs"
proof (rule scan_loop.raw_induct[where P = "\<lambda>e hdl lnk cur hm n tr res.
          \<exists>reqs. snd (snd res) = tr @ map NetGetAuthorFeed reqs", OF _ assms])
  fix scan e hdl lnk cur hm n tr res
  assume 1: "\<And>e hdl lnk cur hm n tr res. scan e hdl lnk cur hm n tr = Some res \<Longrightarrow>
               \<exists>reqs. snd (snd res) = tr @ map NetGetAuthorFeed reqs"
    "(if hm \<and> n < maxPostsToCheck then
        (case getAuthorFeed e tr \<lparr>actor = hdl, limit = 100, req_cursor = cur\<rparr> of
           Rejected err \<Rightarrow>
             Some (Inl err, n,
                   tr @ [NetGetAuthorFeed \<lparr>actor = hdl, limit = 100, req_cursor = cur\<rparr>])
         | Response None \<Rightarrow>
             Some (Inr False, n,
                   tr @ [NetGetAuthorFeed \<lparr>actor = hdl, limit = 100, req_cursor = cur\<rparr>])
         | Response (Some d) \<Rightarrow>
            (case feed d of
               FeedMissing \<Rightarrow>
                 Some (Inr False, n,
                       tr @ [NetGetAuthorFeed \<lparr>actor = hdl, limit = 100, req_cursor = cur\<rparr>])
             | FeedNotIterable \<Rightarrow>
                 Some (Inl TypeError, n,
                       tr @ [NetGetAuthorFeed \<lparr>actor = hdl, limit = 100, req_cursor = cur\<rparr>])
             | Feed its \<Rightarrow>
                (case feed_loop lnk its n of
                   ReturnTrue m \<Rightarrow>
                     Some (Inr True, m,
                           tr @ [NetGetAuthorFeed \<lparr>actor = hdl, limit = 100, req_cursor = cur\<rparr>])
                 | Thrown err m \<Rightarrow>
                     Some (Inl err, m,
                           tr @ [NetGetAuthorFeed \<lparr>actor = hdl, limit = 100, req_cursor = cur\<rparr>])
                 | Completed m \<Rightarrow>
                     scan e hdl lnk (cursor d) (truthy (cursor d)) m
                       (tr @ [NetGetAuthorFeed \<lparr>actor = hdl, limit = 100, req_cursor = cur\<rparr>]))))
      else Some (Inr False, n, tr)) = Some res"
  let ?rq = "\<lparr>actor = hdl, limit = 100, req_cursor = cur\<rparr>"
  have one: "tr @ [NetGetAuthorFeed ?rq] = tr @ map NetGetAuthorFeed [?rq]" by simp
  show "\<exists>reqs. snd (snd res) = tr @ map NetGetAuthorFeed reqs"
  proof (cases "hm \<and> n < maxPostsToCheck")
    case False
    with 1(2) have "snd (snd res) = tr @ map NetGetAuthorFeed []" by auto
    then show ?thesis by blast
  next
    case True
    show ?thesis
    proof (cases "getAuthorFeed e tr ?rq")
      case (Rejected err)
      with True 1(2) have "snd (snd res) = tr @ map NetGetAuthorFeed [?rq]" by auto
      then show ?thesis by blast
    next
      case (Response d)
      show ?thesis
      proof (cases d)
        case None
        with True Response 1(2) have "snd (snd res) = tr @ map NetGetAuthorFeed [?rq]" by auto
        then show ?thesis by blast
      next
        case (Some pd)
        show ?thesis
        proof (cases "feed pd")
          case FeedMissing
          with True Response Some 1(2) have "snd (snd res) = tr @ map NetGetAuthorFeed [?rq]" by auto
          then show ?thesis by blast
        next
          case FeedNotIterable
          with True Response Some 1(2) have "snd (snd res) = tr @ map NetGetAuthorFeed [?rq]" by auto
          then show ?thesis by blast
        next
          case (Feed its)
          show ?thesis
          proof (cases "feed_loop lnk its n")
            case (ReturnTrue m)
            with True Response Some Feed 1(2)
            have "snd (snd res) = tr @ map NetGetAuthorFeed [?rq]" by auto
            then show ?thesis by blast
          next
            case (Thrown err m)
            with True Response Some Feed 1(2)
            have "snd (snd res) = tr @ map NetGetAuthorFeed [?rq]" by auto
            then show ?thesis by blast
          next
            case (Completed m)
            with True Response Some Feed 1(2)
            have "scan e hdl lnk (cursor pd) (truthy (cursor pd)) m (tr @ [NetGetAuthorFeed ?rq]) = Some res"
              by simp
            from 1(1)[OF this] obtain reqs where
              "snd (snd res) = (tr @ [NetGetAuthorFeed ?rq]) @ map NetGetAuthorFeed reqs" by blast
            then have "snd (snd res) = tr @ map NetGetAuthorFeed (?rq # reqs)" by simp
            then show ?thesis by blast
          qed
        qed
      qed
    qed
  qed
qed

lemma hasLinkBeenPosted_trace:
  assumes "hasLinkBeenPosted e ag lnk tr = Some (r, tr')"
  shows "\<exists>reqs rest. tr' = tr @ map NetGetAuthorFeed reqs @ rest \<and> \<not> list_ex is_net rest"
proof (cases "scan_body e ag lnk tr")
  case None
  with assms show ?thesis by (simp add: hasLinkBeenPosted_def)
next
  case (Some res)
  obtain c n tr1 where res: "res = (c, n, tr1)" by (cases res) auto
  have "\<exists>reqs. tr1 = tr @ map NetGetAuthorFeed reqs"
  proof (cases "agent_session ag")
    case None
    with Some res have "tr1 = tr @ map NetGetAuthorFeed []" by (simp add: scan_body_def)
    then show ?thesis by blast
  next
    case (Some s)
    with \<open>scan_body e ag lnk tr = Some res\<close> scan_loop_trace[of e "session_handle s" lnk None True 0 tr res] res
    show ?thesis by (simp add: scan_body_def)
  qed
  then obtain reqs where reqs: "tr1 = tr @ map NetGetAuthorFeed reqs" by blast
  show ?thesis
  proof (cases c)
    case (Inl err)
    with assms Some res reqs
    have "tr' = tr @ map NetGetAuthorFeed reqs @
                 [ConsoleWarn (js ''Warning: Could not search for previous posts:'') err]"
      by (simp add: hasLinkBeenPosted_def)
    then show ?thesis by (intro exI[of _ reqs] exI[of _ "[ConsoleWarn (js ''Warning: Could not search for previous posts:'') err]"]) simp
  next
    case (Inr b)
    with assms Some res reqs have "tr' = tr @ map NetGetAuthorFeed reqs @ []"
      by (simp add: hasLinkBeenPosted_def)
    then show ?thesis by (intro exI[of _ reqs] exI[of _ "[]"]) simp
  qed
qed

lemma hasLinkBeenPosted_never_throws:
  "hasLinkBeenPosted e ag lnk tr \<noteq> Some (Inl err, tr')"
  by (auto simp: hasLinkBeenPosted_def split: option.splits sum.splits prod.splits)

section \<open>Scanning a sequence of pages\<close>

lemma requests_length: "length (requests hdl cur pgs) = length pgs"
  by (induction pgs arbitrary: cur) simp_all

lemma requests_fetches: "filter is_fetch (requests hdl cur pgs) = requests hdl cur pgs"
  by (induction pgs arbitrary: cur) simp_all

lemma requests_snoc:
  "requests hdl cur (pgs @ [pg]) =
     requests hdl cur pgs @ [NetGetAuthorFeed \<lparr>actor = hdl, limit = 100, req_cursor = last_cursor cur pgs\<rparr>]"
  by (induction pgs arbitrary: cur) (simp_all add: last_cursor_def)

lemma served_snoc:
  "served e hdl tr cur (pgs @ [pg]) \<longleftrightarrow>
     served e hdl tr cur pgs \<and>
     getAuthorFeed e (tr @ requests hdl cur pgs)
       \<lparr>actor = hdl, limit = 100, req_cursor = last_cursor cur pgs\<rparr> = page_response pg"
  by (induction pgs arbitrary: tr cur) (auto simp: last_cursor_def)

lemma checked_snoc: "checked n (pgs @ [pg]) = checked n pgs + length (fst pg)"
  by (simp add: checked_def)

lemma scan_loop_skip_pages:
  assumes "served e hdl tr cur pgs"
    and "\<forall>pg\<in>set pgs. \<not> list_ex (mentions lnk) (fst pg) \<and> truthy (snd pg)"
    and "checked n pgs < 100"
  shows "scan_loop e hdl lnk cur True n tr =
         scan_loop e hdl lnk (last_cursor cur pgs) True (checked n pgs) (tr @ requests hdl cur pgs)"
proof (cases "pgs = []")
  case True
  then show ?thesis by (simp add: last_cursor_def checked_def)
next
  case False
  have b: "\<forall>pg\<in>set (butlast pgs). truthy (snd pg)"
    using assms(2) by (auto dest: in_set_butlastD)
  have c: "checked n (butlast pgs) < 100"
  proof -
    have "checked n pgs = checked n (butlast pgs) + length (fst (last pgs))"
      using checked_snoc[of n "butlast pgs" "last pgs"] False by simp
    then show ?thesis using assms(3) by simp
  qed
  have t: "truthy (snd (last pgs))" using assms(2) False by simp
  have q: "\<forall>pg\<in>set pgs. \<not> list_ex (mentions lnk) (fst pg)" using assms(2) by simp
  show ?thesis
    using scan_loop_quiet_pages[OF assms(1) False q b c] t False
    by (simp add: last_cursor_def)
qed

lemma scan_loop_hit_page:
  assumes "getAuthorFeed e tr \<lparr>actor = hdl, limit = 100, req_cursor = cur\<rparr> = page_response pg"
    and "lnk \<noteq> []" and "list_ex (mentions lnk) (fst pg)" and "n < 100"
  shows "scan_loop e hdl lnk cur True n tr =
         Some (Inr True, Suc (n + length (takeWhile (\<lambda>it. \<not> mentions lnk it) (fst pg))),
               tr @ [NetGetAuthorFeed \<lparr>actor = hdl, limit = 100, req_cursor = cur\<rparr>])"
  using assms
  by (subst scan_loop.simps) (simp add: maxPostsToCheck_def page_response_def feed_loop_hit)

lemma scan_loop_last_page:
  assumes "getAuthorFeed e tr \<lparr>actor = hdl, limit = 100, req_cursor = cur\<rparr> = page_response pg"
    and "\<not> list_ex (mentions lnk) (fst pg)" and "n < 100"
    and "\<not> truthy (snd pg) \<or> 100 \<le> n + length (fst pg)"
  shows "scan_loop e hdl lnk cur True n tr =
         Some (Inr False, n + length (fst pg),
               tr @ [NetGetAuthorFeed \<lparr>actor = hdl, limit = 100, req_cursor = cur\<rparr>])"
proof -
  have "\<not> (truthy (snd pg) \<and> n + length (fst pg) < 100)" using assms(4) by auto
  then show ?thesis
    using scan_loop_quiet_page[OF assms(1-3)] by (simp add: scan_loop_stop)
qed

lemma scan_body_pages:
  assumes "lnk \<noteq> []" and "agent_session ag = Some s"
    and "served e (session_handle s) tr None (pgs @ [pg])"
    and "\<forall>p\<in>set pgs. \<not> list_ex (mentions lnk) (fst p) \<and> truthy (snd p)"
    and "checked 0 pgs < 100"
    and "list_ex (mentions lnk) (fst pg) \<or> \<not> truthy (snd pg) \<or> 100 \<le> checked 0 (pgs @ [pg])"
  shows "scan_body e ag lnk tr =
           Some (Inr (list_ex (mentions lnk) (fst pg)),
                 (if list_ex (mentions lnk) (fst pg)
                  then Suc (checked 0 pgs + length (takeWhile (\<lambda>it. \<not> mentions lnk it) (fst pg)))
                  else checked 0 (pgs @ [pg])),
                 tr @ requests (session_handle s) None (pgs @ [pg]))"
proof -
  let ?h = "session_handle s"
  have sv: "served e ?h tr None pgs"
    and lastp: "getAuthorFeed e (tr @ requests ?h None pgs)
       \<lparr>actor = ?h, limit = 100, req_cursor = last_cursor None pgs\<rparr> = page_response pg"
    using assms(3) by (simp_all add: served_snoc)
  have skip: "scan_loop e ?h lnk None True 0 tr =
         scan_loop e ?h lnk (last_cursor None pgs) True (checked 0 pgs) (tr @ requests ?h None pgs)"
    by (rule scan_loop_skip_pages[OF sv assms(4,5)])
  show ?thesis
  proof (cases "list_ex (mentions lnk) (fst pg)")
    case True
    then show ?thesis
      using skip scan_loop_hit_page[OF lastp assms(1) True assms(5)] assms(2)
      by (simp add: scan_body_def requests_snoc)
  next
    case False
    then have stop: "\<not> truthy (snd pg) \<or> 100 \<le> checked 0 pgs + length (fst pg)"
      using assms(6) by (simp add: checked_snoc)
    show ?thesis
      using skip scan_loop_last_page[OF lastp False assms(5) stop] assms(2) False
      by (simp add: scan_body_def requests_snoc checked_snoc)
  qed
qed

lemma hasLinkBeenPosted_of_body:
  "scan_body e ag lnk tr = Some (Inr b, n, tr') \<Longrightarrow> hasLinkBeenPosted e ag lnk tr = Some (Inr b, tr')"
  by (simp add: hasLinkBeenPosted_def)

lemma hasLinkBeenPosted_of_thrown:
  "scan_body e ag lnk tr = Some (Inl err, n, tr') \<Longrightarrow>
   hasLinkBeenPosted e ag lnk tr =
     Some (Inr False, tr' @ [ConsoleWarn (js ''Warning: Could not search for previous posts:'') err])"
  by (simp add: hasLinkBeenPosted_def)

section \<open>Example pages\<close>

lemma ex_link_nonempty: "ex_link \<noteq> []"
  by (simp add: ex_link_def js_def)

lemma quiet_item_quiet: "\<not> mentions ex_link quiet_item"
  using indexOf_from_none[of "js ''hello''" ex_link 0]
  by (simp add: mentions_def record_of_def quiet_item_def text_item_def ex_link_def js_def)

lemma facet_item_mentions: "mentions u (facet_item u)"
  by (simp add: mentions_def record_of_def facet_item_def)

lemma replicate_quiet: "\<not> list_ex (mentions ex_link) (replicate n quiet_item)"
  by (simp add: list_ex_iff quiet_item_quiet)

lemma takeWhile_replicate_then:
  "P x \<Longrightarrow> \<not> P y \<Longrightarrow> takeWhile P (replicate n x @ y # ys) = replicate n x"
  by (induction n) simp_all

lemma ex_session: "agent_session ex_agent = Some \<lparr>handle = Some (js ''me.test''), did = js ''did:plc:me''\<rparr>"
  by (simp add: ex_agent_def)

lemma ex_handle: "session_handle \<lparr>handle = Some (js ''me.test''), did = js ''did:plc:me''\<rparr> = js ''me.test''"
  by (simp add: session_handle_def truthy_def or_empty_def js_def)

lemma served_paged_one:
  "served (ex_env fd (paged (pg # rest))) hdl [] None [pg]"
  by (simp add: ex_env_def paged_def)

lemma served_paged_two:
  "served (ex_env fd (paged (pg # pg' # rest))) hdl [] None [pg, pg']"
  by (simp add: ex_env_def paged_def)

section \<open>The ceiling of the duplicate scan\<close>

text \<open>
  What the loop does on pages without a match. For a non-empty link, let the service
  answer the successive requests with well-formed pages none of whose items mentions the
  link, and let the last page of the list be the first after which the cursor is empty
  or the number of items received so far is at least 100. Then the scan returns
  \<open>false\<close> after exactly one request per page of the list, and \<open>postsChecked\<close> is the
  number of items of these pages. In particular a first page of 100 items ends the scan
  after one request.
\<close>

theorem scan_stops_at_page_end:
  assumes "lnk \<noteq> []" and "agent_session ag = Some s"
    and "served e (session_handle s) tr None (pgs @ [pg])"
    and "\<forall>p\<in>set (pgs @ [pg]). \<not> list_ex (mentions lnk) (fst p)"
    and "\<forall>p\<in>set pgs. truthy (snd p)" and "checked 0 pgs < 100"
    and "\<not> truthy (snd pg) \<or> 100 \<le> checked 0 (pgs @ [pg])"
  shows "scan_body e ag lnk tr =
           Some (Inr False, checked 0 (pgs @ [pg]),
                 tr @ requests (session_handle s) None (pgs @ [pg])) \<and>
         hasLinkBeenPosted e ag lnk tr =
           Some (Inr False, tr @ requests (session_handle s) None (pgs @ [pg])) \<and>
         length (requests (session_handle s) None (pgs @ [pg])) = length pgs + 1"
proof -
  have q: "\<forall>p\<in>set pgs. \<not> list_ex (mentions lnk) (fst p) \<and> truthy (snd p)"
    using assms(4,5) by simp
  have nm: "\<not> list_ex (mentions lnk) (fst pg)" using assms(4) by simp
  have st: "list_ex (mentions lnk) (fst pg) \<or> \<not> truthy (snd pg) \<or> 100 \<le> checked 0 (pgs @ [pg])"
    using assms(7) by blast
  have body: "scan_body e ag lnk tr =
           Some (Inr False, checked 0 (pgs @ [pg]),
                 tr @ requests (session_handle s) None (pgs @ [pg]))"
    using scan_body_pages[OF assms(1,2,3) q assms(6) st] nm by simp
  show ?thesis using body hasLinkBeenPosted_of_body[OF body] by (simp add: requests_length)
qed

theorem scan_stops_at_page_end_witness:
  "scan_body (ex_env ex_feed (paged [full_page, dup_page])) ex_agent ex_link [] =
     Some (Inr False, 100, [NetGetAuthorFeed req0]) \<and>
   hasLinkBeenPosted (ex_env ex_feed (paged [full_page, dup_page])) ex_agent ex_link [] =
     Some (Inr False, [NetGetAuthorFeed req0]) \<and>
   list_ex (mentions ex_link) (fst dup_page)"
proof -
  let ?e = "ex_env ex_feed (paged [full_page, dup_page])"
  let ?s = "\<lparr>handle = Some (js ''me.test''), did = js ''did:plc:me''\<rparr>"
  have sv: "served ?e (session_handle ?s) [] None ([] @ [full_page])"
    using served_paged_one by simp
  have q: "\<forall>p\<in>set ([] @ [full_page]). \<not> list_ex (mentions ex_link) (fst p)"
    by (simp add: full_page_def replicate_quiet)
  have t: "\<forall>p\<in>set ([]::page list). truthy (snd p)" by simp
  have c: "checked 0 ([]::page list) < 100" by (simp add: checked_def)
  have st: "\<not> truthy (snd full_page) \<or> 100 \<le> checked 0 ([] @ [full_page])"
    by (simp add: checked_def full_page_def)
  from scan_stops_at_page_end[OF ex_link_nonempty ex_session sv q t c st]
  show ?thesis
    by (simp add: ex_handle checked_def full_page_def dup_page_def req0_def facet_item_mentions)
qed

text \<open>
  Claim C2, at a history served in two short pages. The claim, like the comment of the
  function ("searches up to 100 previous posts") and \<open>maxPostsToCheck\<close>, asks that no
  more than 100 posts are inspected and that a duplicate beyond them is not found. The
  loop tests the ceiling between pages only: after a page of 60 items with a cursor it
  fetches a second page and inspects it, and it returns \<open>true\<close> for a link that only
  the 110th item carries, with \<open>postsChecked = 110\<close>; no item among the first 100
  mentions the link.
\<close>

theorem scan_inspects_past_ceiling:
  "scan_body (ex_env ex_feed (paged [short_page, late_page])) ex_agent ex_link [] =
     Some (Inr True, 110, [NetGetAuthorFeed req0, NetGetAuthorFeed req1]) \<and>
   \<not> list_ex (mentions ex_link) (take 100 (fst short_page @ fst late_page))"
proof -
  let ?e = "ex_env ex_feed (paged [short_page, late_page])"
  let ?s = "\<lparr>handle = Some (js ''me.test''), did = js ''did:plc:me''\<rparr>"
  have sv: "served ?e (session_handle ?s) [] None ([short_page] @ [late_page])"
    using served_paged_two by simp
  have q: "\<forall>p\<in>set [short_page]. \<not> list_ex (mentions ex_link) (fst p) \<and> truthy (snd p)"
    by (simp add: short_page_def replicate_quiet truthy_def js_def)
  have c: "checked 0 [short_page] < 100" by (simp add: checked_def short_page_def)
  have m: "list_ex (mentions ex_link) (fst late_page)"
    by (simp add: late_page_def facet_item_mentions)
  then have st: "list_ex (mentions ex_link) (fst late_page) \<or> \<not> truthy (snd late_page) \<or>
                 100 \<le> checked 0 ([short_page] @ [late_page])" by blast
  have tw: "takeWhile (\<lambda>it. \<not> mentions ex_link it) (fst late_page) = replicate 49 quiet_item"
    by (simp add: late_page_def takeWhile_replicate_then quiet_item_quiet facet_item_mentions)
  have "take 100 (fst short_page @ fst late_page) = replicate 100 quiet_item"
    by (simp add: short_page_def late_page_def replicate_add[symmetric])
  then have no: "\<not> list_ex (mentions ex_link) (take 100 (fst short_page @ fst late_page))"
    by (simp add: replicate_quiet)
  from scan_body_pages[OF ex_link_nonempty ex_session sv q c st] m tw no
  show ?thesis
    by (simp add: ex_handle checked_def short_page_def req0_def req1_def)
qed

section \<open>The result of the duplicate scan\<close>

text \<open>
  The result on a sequence of pages. For a non-empty link and well-formed pages, let the
  last page of the list be the first that holds an item mentioning the link, or has no
  cursor, or brings the number of items received to 100 or more. Then
  \<open>hasLinkBeenPosted\<close> returns whether an item of these pages mentions the link, after
  exactly one request per page of the list; a match on the first page costs one request.
\<close>

theorem hasLinkBeenPosted_iff_fetched_match:
  assumes "lnk \<noteq> []" and "agent_session ag = Some s"
    and "served e (session_handle s) tr None (pgs @ [pg])"
    and "\<forall>p\<in>set pgs. \<not> list_ex (mentions lnk) (fst p) \<and> truthy (snd p)"
    and "checked 0 pgs < 100"
    and "list_ex (mentions lnk) (fst pg) \<or> \<not> truthy (snd pg) \<or> 100 \<le> checked 0 (pgs @ [pg])"
  shows "hasLinkBeenPosted e ag lnk tr =
           Some (Inr (list_ex (mentions lnk) (concat (map fst (pgs @ [pg])))),
                 tr @ requests (session_handle s) None (pgs @ [pg])) \<and>
         length (filter is_fetch (requests (session_handle s) None (pgs @ [pg]))) = length pgs + 1"
proof -
  have ex: "list_ex (mentions lnk) (concat (map fst (pgs @ [pg]))) = list_ex (mentions lnk) (fst pg)"
    using assms(4) by (auto simp: list_ex_iff)
  show ?thesis
    using hasLinkBeenPosted_of_body[OF scan_body_pages[OF assms]] ex
    by (simp add: requests_length requests_fetches)
qed

theorem hasLinkBeenPosted_iff_fetched_match_witness:
  "hasLinkBeenPosted (ex_env ex_feed (paged [hit_page, dup_page])) ex_agent ex_link [] =
     Some (Inr True, [NetGetAuthorFeed req0])"
proof -
  let ?e = "ex_env ex_feed (paged [hit_page, dup_page])"
  let ?s = "\<lparr>handle = Some (js ''me.test''), did = js ''did:plc:me''\<rparr>"
  have sv: "served ?e (session_handle ?s) [] None ([] @ [hit_page])"
    using served_paged_one by simp
  have q: "\<forall>p\<in>set ([]::page list). \<not> list_ex (mentions ex_link) (fst p) \<and> truthy (snd p)" by simp
  have c: "checked 0 ([]::page list) < 100" by (simp add: checked_def)
  have m: "list_ex (mentions ex_link) (fst hit_page)"
    by (simp add: hit_page_def facet_item_mentions)
  then have st: "list_ex (mentions ex_link) (fst hit_page) \<or> \<not> truthy (snd hit_page) \<or>
                 100 \<le> checked 0 ([] @ [hit_page])" by blast
  from hasLinkBeenPosted_iff_fetched_match[OF ex_link_nonempty ex_session sv q c st] m
  show ?thesis by (simp add: ex_handle req0_def)
qed

text \<open>
  Claim C3, at a history whose first page has 99 items. The claim asks for \<open>true\<close>
  exactly when one of the first 100 scanned items matches. The scan fetches the second
  page and returns \<open>true\<close> for a link that only the 101st item mentions, after two
  requests; no item among the first 100 mentions it.
\<close>

theorem match_after_first_hundred:
  "hasLinkBeenPosted (ex_env ex_feed (paged [page99, tail_page])) ex_agent ex_link [] =
     Some (Inr True, [NetGetAuthorFeed req0, NetGetAuthorFeed req1]) \<and>
   \<not> list_ex (mentions ex_link) (take 100 (fst page99 @ fst tail_page))"
proof -
  let ?e = "ex_env ex_feed (paged [page99, tail_page])"
  let ?s = "\<lparr>handle = Some (js ''me.test''), did = js ''did:plc:me''\<rparr>"
  have sv: "served ?e (session_handle ?s) [] None ([page99] @ [tail_page])"
    using served_paged_two by simp
  have q: "\<forall>p\<in>set [page99]. \<not> list_ex (mentions ex_link) (fst p) \<and> truthy (snd p)"
    by (simp add: page99_def replicate_quiet truthy_def js_def)
  have c: "checked 0 [page99] < 100" by (simp add: checked_def page99_def)
  have "mentions ex_link (text_item (js ''read https://x.test/a today''))"
    using indexOf_from_none[of "js ''read https://x.test/a today''" ex_link 0]
    by (simp add: mentions_def record_of_def text_item_def ex_link_def js_def)
  then have m: "list_ex (mentions ex_link) (fst tail_page)"
    by (simp add: tail_page_def)
  then have st: "list_ex (mentions ex_link) (fst tail_page) \<or> \<not> truthy (snd tail_page) \<or>
                 100 \<le> checked 0 ([page99] @ [tail_page])" by blast
  have "take 100 (fst page99 @ fst tail_page) = replicate 99 quiet_item @ [quiet_item]"
    by (simp add: page99_def tail_page_def)
  then have no: "\<not> list_ex (mentions ex_link) (take 100 (fst page99 @ fst tail_page))"
    using replicate_quiet[of 99] by (simp add: quiet_item_quiet)
  from hasLinkBeenPosted_of_body[OF scan_body_pages[OF ex_link_nonempty ex_session sv q c st]] m no
  show ?thesis
    by (simp add: ex_handle req0_def req1_def page99_def)
qed

section \<open>Errors during the duplicate scan\<close>

lemma feed_loop_null:
  "\<not> list_ex (mentions lnk) its \<Longrightarrow>
   feed_loop lnk (map Some its @ None # rest) n = Thrown TypeError (Suc (n + length its))"
proof (induction its arbitrary: n)
  case Nil
  show ?case by simp
next
  case (Cons it its)
  then show ?case
    by (cases "record_of it") (auto dest: post_has_link_imp_mentions)
qed

lemma scan_loop_error_page:
  assumes "n < 100"
    and "getAuthorFeed e tr \<lparr>actor = hdl, limit = 100, req_cursor = cur\<rparr> = resp"
    and "resp = Rejected err \<or>
         resp = Response (Some \<lparr>feed = FeedNotIterable, cursor = c\<rparr>) \<and> err = TypeError \<or>
         resp = Response (Some \<lparr>feed = Feed (map Some its @ None # rest), cursor = c\<rparr>) \<and>
           \<not> list_ex (mentions lnk) its \<and> err = TypeError"
  shows "\<exists>m. scan_loop e hdl lnk cur True n tr =
           Some (Inl err, m, tr @ [NetGetAuthorFeed \<lparr>actor = hdl, limit = 100, req_cursor = cur\<rparr>])"
  using assms
  by (subst scan_loop.simps) (auto simp: maxPostsToCheck_def feed_loop_null)

lemma scan_loop_break_page:
  assumes "n < 100"
    and "getAuthorFeed e tr \<lparr>actor = hdl, limit = 100, req_cursor = cur\<rparr> = resp"
    and "resp = Response None \<or> resp = Response (Some \<lparr>feed = FeedMissing, cursor = c\<rparr>)"
  shows "scan_loop e hdl lnk cur True n tr =
           Some (Inr False, n, tr @ [NetGetAuthorFeed \<lparr>actor = hdl, limit = 100, req_cursor = cur\<rparr>])"
  using assms
  by (subst scan_loop.simps) (auto simp: maxPostsToCheck_def)

text \<open>
  Claim C4, as amended. \<open>hasLinkBeenPosted\<close> never completes with a thrown error. When the
  agent has no session, or when after any number of well-formed pages without a match
  the next request is rejected, or its feed cannot be iterated, or an element of its
  feed is \<open>null\<close> before any item mentions the link, the error is caught: the warning is
  logged with that error and the result is \<open>false\<close>. A response without data or without
  a feed is not an error: the scan ends there and the result is \<open>false\<close>, with no
  warning. In each case the trace shows the requests made and nothing else.
\<close>

theorem hasLinkBeenPosted_fails_open:
  "hasLinkBeenPosted e ag lnk tr \<noteq> Some (Inl err', tr') \<and>
   (agent_session ag = None \<longrightarrow>
      hasLinkBeenPosted e ag lnk tr =
        Some (Inr False,
              tr @ [ConsoleWarn (js ''Warning: Could not search for previous posts:'') TypeError])) \<and>
   (agent_session ag = Some s \<and>
    served e (session_handle s) tr None pgs \<and>
    (\<forall>p\<in>set pgs. \<not> list_ex (mentions lnk) (fst p) \<and> truthy (snd p)) \<and>
    checked 0 pgs < 100 \<and>
    getAuthorFeed e (tr @ requests (session_handle s) None pgs)
      \<lparr>actor = session_handle s, limit = 100, req_cursor = last_cursor None pgs\<rparr> = resp
    \<longrightarrow>
      ((resp = Rejected err \<or>
        resp = Response (Some \<lparr>feed = FeedNotIterable, cursor = c\<rparr>) \<and> err = TypeError \<or>
        resp = Response (Some \<lparr>feed = Feed (map Some its @ None # rest), cursor = c\<rparr>) \<and>
          \<not> list_ex (mentions lnk) its \<and> err = TypeError)
       \<longrightarrow>
         hasLinkBeenPosted e ag lnk tr =
           Some (Inr False,
                 tr @ requests (session_handle s) None pgs @
                 [NetGetAuthorFeed \<lparr>actor = session_handle s, limit = 100,
                                     req_cursor = last_cursor None pgs\<rparr>,
                  ConsoleWarn (js ''Warning: Could not search for previous posts:'') err])) \<and>
      ((resp = Response None \<or> resp = Response (Some \<lparr>feed = FeedMissing, cursor = c\<rparr>))
       \<longrightarrow>
         hasLinkBeenPosted e ag lnk tr =
           Some (Inr False,
                 tr @ requests (session_handle s) None pgs @
                 [NetGetAuthorFeed \<lparr>actor = session_handle s, limit = 100,
                                     req_cursor = last_cursor None pgs\<rparr>])))"
proof (intro conjI impI)
  show "hasLinkBeenPosted e ag lnk tr \<noteq> Some (Inl err', tr')"
    by (rule hasLinkBeenPosted_never_throws)
next
  assume "agent_session ag = None"
  then show "hasLinkBeenPosted e ag lnk tr =
        Some (Inr False,
              tr @ [ConsoleWarn (js ''Warning: Could not search for previous posts:'') TypeError])"
    by (simp add: hasLinkBeenPosted_def scan_body_def)
next
  let ?h = "session_handle s"
  let ?rq = "\<lparr>actor = ?h, limit = 100, req_cursor = last_cursor None pgs\<rparr>"
  assume a: "agent_session ag = Some s \<and>
    served e (session_handle s) tr None pgs \<and>
    (\<forall>p\<in>set pgs. \<not> list_ex (mentions lnk) (fst p) \<and> truthy (snd p)) \<and>
    checked 0 pgs < 100 \<and>
    getAuthorFeed e (tr @ requests (session_handle s) None pgs)
      \<lparr>actor = session_handle s, limit = 100, req_cursor = last_cursor None pgs\<rparr> = resp"
    and k: "resp = Rejected err \<or>
        resp = Response (Some \<lparr>feed = FeedNotIterable, cursor = c\<rparr>) \<and> err = TypeError \<or>
        resp = Response (Some \<lparr>feed = Feed (map Some its @ None # rest), cursor = c\<rparr>) \<and>
          \<not> list_ex (mentions lnk) its \<and> err = TypeError"
  from a have s: "agent_session ag = Some s" and sv: "served e ?h tr None pgs"
    and q: "\<forall>p\<in>set pgs. \<not> list_ex (mentions lnk) (fst p) \<and> truthy (snd p)"
    and c: "checked 0 pgs < 100"
    and r: "getAuthorFeed e (tr @ requests ?h None pgs) ?rq = resp"
    by simp_all
  have skip: "scan_loop e ?h lnk None True 0 tr =
         scan_loop e ?h lnk (last_cursor None pgs) True (checked 0 pgs) (tr @ requests ?h None pgs)"
    by (rule scan_loop_skip_pages[OF sv q c])
  from scan_loop_error_page[OF c r k] obtain m where
    "scan_loop e ?h lnk (last_cursor None pgs) True (checked 0 pgs) (tr @ requests ?h None pgs) =
       Some (Inl err, m, (tr @ requests ?h None pgs) @ [NetGetAuthorFeed ?rq])"
    by blast
  with skip s have "scan_body e ag lnk tr =
       Some (Inl err, m, (tr @ requests ?h None pgs) @ [NetGetAuthorFeed ?rq])"
    by (simp add: scan_body_def)
  from hasLinkBeenPosted_of_thrown[OF this]
  show "hasLinkBeenPosted e ag lnk tr =
        Some (Inr False,
              tr @ requests ?h None pgs @
              [NetGetAuthorFeed ?rq,
               ConsoleWarn (js ''Warning: Could not search for previous posts:'') err])"
    by simp
next
  let ?h = "session_handle s"
  let ?rq = "\<lparr>actor = ?h, limit = 100, req_cursor = last_cursor None pgs\<rparr>"
  assume a: "agent_session ag = Some s \<and>
    served e (session_handle s) tr None pgs \<and>
    (\<forall>p\<in>set pgs. \<not> list_ex (mentions lnk) (fst p) \<and> truthy (snd p)) \<and>
    checked 0 pgs < 100 \<and>
    getAuthorFeed e (tr @ requests (session_handle s) None pgs)
      \<lparr>actor = session_handle s, limit = 100, req_cursor = last_cursor None pgs\<rparr> = resp"
    and k: "resp = Response None \<or> resp = Response (Some \<lparr>feed = FeedMissing, cursor = c\<rparr>)"
  from a have s: "agent_session ag = Some s" and sv: "served e ?h tr None pgs"
    and q: "\<forall>p\<in>set pgs. \<not> list_ex (mentions lnk) (fst p) \<and> truthy (snd p)"
    and c: "checked 0 pgs < 100"
    and r: "getAuthorFeed e (tr @ requests ?h None pgs) ?rq = resp"
    by simp_all
  have skip: "scan_loop e ?h lnk None True 0 tr =
         scan_loop e ?h lnk (last_cursor None pgs) True (checked 0 pgs) (tr @ requests ?h None pgs)"
    by (rule scan_loop_skip_pages[OF sv q c])
  with scan_loop_break_page[OF c r k] s have "scan_body e ag lnk tr =
       Some (Inr False, checked 0 pgs, (tr @ requests ?h None pgs) @ [NetGetAuthorFeed ?rq])"
    by (simp add: scan_body_def)
  from hasLinkBeenPosted_of_body[OF this]
  show "hasLinkBeenPosted e ag lnk tr =
        Some (Inr False, tr @ requests ?h None pgs @ [NetGetAuthorFeed ?rq])"
    by simp
qed

theorem hasLinkBeenPosted_fails_open_witness:
  "hasLinkBeenPosted (ex_env ex_feed (paged [])) ex_agent ex_link [] =
     Some (Inr False,
           [NetGetAuthorFeed req0,
            ConsoleWarn (js ''Warning: Could not search for previous posts:'')
              (Error (js ''offline''))]) \<and>
   hasLinkBeenPosted (ex_env ex_feed (paged [])) \<lparr>agent_session = None\<rparr> ex_link [] =
     Some (Inr False,
           [ConsoleWarn (js ''Warning: Could not search for previous posts:'') TypeError]) \<and>
   hasLinkBeenPosted (ex_env ex_feed no_feed) ex_agent ex_link [] =
     Some (Inr False, [NetGetAuthorFeed req0])"
proof -
  let ?e = "ex_env ex_feed (paged [])"
  let ?f = "ex_env ex_feed no_feed"
  let ?s = "\<lparr>handle = Some (js ''me.test''), did = js ''did:plc:me''\<rparr>"
  let ?rq = "\<lparr>actor = session_handle ?s, limit = 100, req_cursor = last_cursor None []\<rparr>"
  have h: "agent_session ex_agent = Some ?s \<and>
    served ?e (session_handle ?s) [] None [] \<and>
    (\<forall>p\<in>set ([]::page list). \<not> list_ex (mentions ex_link) (fst p) \<and> truthy (snd p)) \<and>
    checked 0 ([]::page list) < 100 \<and>
    getAuthorFeed ?e ([] @ requests (session_handle ?s) None []) ?rq =
      Rejected (Error (js ''offline''))"
    by (simp add: ex_session checked_def ex_env_def paged_def)
  have g: "agent_session ex_agent = Some ?s \<and>
    served ?f (session_handle ?s) [] None [] \<and>
    (\<forall>p\<in>set ([]::page list). \<not> list_ex (mentions ex_link) (fst p) \<and> truthy (snd p)) \<and>
    checked 0 ([]::page list) < 100 \<and>
    getAuthorFeed ?f ([] @ requests (session_handle ?s) None []) ?rq =
      Response (Some \<lparr>feed = FeedMissing, cursor = None\<rparr>)"
    by (simp add: ex_session checked_def ex_env_def no_feed_def)
  have n: "agent_session \<lparr>agent_session = None\<rparr> = None" by simp
  from hasLinkBeenPosted_fails_open[where e = ?e and ag = ex_agent and lnk = ex_link and tr = "[]"
         and s = ?s and pgs = "[]" and resp = "Rejected (Error (js ''offline''))"
         and err = "Error (js ''offline'')" and c = None and its = "[]" and rest = "[]"] h
       hasLinkBeenPosted_fails_open[where e = ?e and ag = "\<lparr>agent_session = None\<rparr>"
         and lnk = ex_link and tr = "[]"] n
       hasLinkBeenPosted_fails_open[where e = ?f and ag = ex_agent and lnk = ex_link and tr = "[]"
         and s = ?s and pgs = "[]" and resp = "Response (Some \<lparr>feed = FeedMissing, cursor = None\<rparr>)"
         and c = None] g
  show ?thesis by (simp add: ex_handle last_cursor_def req0_def)
qed

text \<open>
  Claim C4 as stated fails for a response that lacks its feed or its data: the scan
  returns \<open>false\<close>, and the trace holds the request only; no warning is logged.
\<close>

theorem missing_feed_is_not_warned:
  "hasLinkBeenPosted (ex_env ex_feed no_feed) ex_agent ex_link [] =
     Some (Inr False, [NetGetAuthorFeed req0]) \<and>
   hasLinkBeenPosted (ex_env ex_feed no_data) ex_agent ex_link [] =
     Some (Inr False, [NetGetAuthorFeed req0])"
  by (simp add: hasLinkBeenPosted_def scan_body_def ex_session[unfolded ex_agent_def] ex_agent_def
      ex_handle scan_loop.simps maxPostsToCheck_def ex_env_def no_feed_def no_data_def req0_def)



section \<open>The publisher\<close>

lemma filter_net_requests: "filter is_net (map NetGetAuthorFeed reqs) = map NetGetAuthorFeed reqs"
  by (induction reqs) simp_all

lemma no_create_requests: "\<not> list_ex is_create (map NetGetAuthorFeed reqs)"
  by (induction reqs) simp_all

lemma filter_net_none: "\<not> list_ex is_net rest \<Longrightarrow> filter is_net rest = []"
  by (induction rest) (auto split: if_splits)

lemma no_net_no_create: "\<not> list_ex is_net rest \<Longrightarrow> \<not> list_ex is_create rest"
proof (induction rest)
  case Nil
  show ?case by simp
next
  case (Cons ev rest)
  then show ?case by (cases ev) simp_all
qed

lemma getBlueskyAgent_cases:
  assumes "getBlueskyAgent e tr = (r, tr1)"
  shows "(tr1 = tr \<and> (\<exists>err. r = Inl err)) \<or>
         tr1 = tr @ [NetLogin (or_empty (BLUESKY_USERNAME e)) (or_empty (BLUESKY_PASSWORD e))]"
  using assms by (auto simp: getBlueskyAgent_def split: if_splits)

lemma sendBlueskyPost_cases:
  "snd (sendBlueskyPost e t u tr) = tr \<or>
   snd (sendBlueskyPost e t u tr) =
     tr @ [NetLogin (or_empty (BLUESKY_USERNAME e)) (or_empty (BLUESKY_PASSWORD e))] \<or>
   (\<exists>cr. snd (sendBlueskyPost e t u tr) =
     tr @ [NetLogin (or_empty (BLUESKY_USERNAME e)) (or_empty (BLUESKY_PASSWORD e)),
           NetCreateRecord cr])"
  by (auto simp: sendBlueskyPost_def getBlueskyAgent_def split: sum.splits option.splits)

lemma publish_body_shape:
  assumes "publish_body e path = Some (r, tr)"
  shows "\<exists>rest. tr = [ConsoleLog [js ''Reading RSS feed...''], ReadFile path] @ rest \<and>
           (\<not> list_ex is_create rest \<or>
            (\<exists>reqs cr. filter is_net rest =
               NetLogin (or_empty (BLUESKY_USERNAME e)) (or_empty (BLUESKY_PASSWORD e)) #
               map NetGetAuthorFeed reqs @
               [NetLogin (or_empty (BLUESKY_USERNAME e)) (or_empty (BLUESKY_PASSWORD e)),
                NetCreateRecord cr]))"
proof -
  let ?U = "or_empty (BLUESKY_USERNAME e)" and ?P = "or_empty (BLUESKY_PASSWORD e)"
  let ?tr0 = "[ConsoleLog [js ''Reading RSS feed...''], ReadFile path]"
  obtain r0 t0 where g0: "getLatestRSSPost e path [ConsoleLog [js ''Reading RSS feed...'']] = (r0, t0)"
    by (cases "getLatestRSSPost e path [ConsoleLog [js ''Reading RSS feed...'']]")
  have t0: "t0 = ?tr0"
    using getLatestRSSPost_trace[of e path "[ConsoleLog [js ''Reading RSS feed...'']]"] g0 by simp
  show ?thesis
  proof (cases r0)
    case (Inl err)
    with assms g0 t0 have "tr = ?tr0 @ []" by (simp add: publish_body_def)
    then show ?thesis by (intro exI[of _ "[]"]) simp
  next
    case (Inr latest)
    show ?thesis
    proof (cases "link latest = []")
      case True
      with assms g0 t0 Inr have "tr = ?tr0 @ []" by (simp add: publish_body_def)
      then show ?thesis by (intro exI[of _ "[]"]) simp
    next
      case False
      let ?logs = "[ConsoleLog [js ''Latest post: '' @ title latest],
                    ConsoleLog [js ''Link: '' @ link latest]]"
      obtain r1 t1 where g1: "getBlueskyAgent e (?tr0 @ ?logs) = (r1, t1)"
        by (cases "getBlueskyAgent e (?tr0 @ ?logs)")
      from getBlueskyAgent_cases[OF g1] consider
        (nologin) err where "t1 = ?tr0 @ ?logs" "r1 = Inl err" |
        (login) "t1 = (?tr0 @ ?logs) @ [NetLogin ?U ?P]"
        by blast
      then show ?thesis
      proof cases
        case nologin
        with assms g0 t0 Inr False g1 have "tr = ?tr0 @ ?logs"
          by (simp add: publish_body_def)
        then show ?thesis by (intro exI[of _ ?logs]) simp
      next
        case login
        show ?thesis
        proof (cases r1)
          case (Inl err)
          with assms g0 t0 Inr False g1 login have "tr = ?tr0 @ (?logs @ [NetLogin ?U ?P])"
            by (simp add: publish_body_def)
          then show ?thesis by (intro exI[of _ "?logs @ [NetLogin ?U ?P]"]) simp
        next
          case ag: (Inr ag)
          let ?t1' = "t1 @ [ConsoleLog [js ''Checking if link has been posted before...'']]"
          from assms g0 t0 Inr False g1 ag
          obtain r2 t2 where g2: "hasLinkBeenPosted e ag (link latest) ?t1' = Some (r2, t2)"
            by (cases "hasLinkBeenPosted e ag (link latest) ?t1'") (auto simp: publish_body_def)
          from hasLinkBeenPosted_trace[OF g2] obtain reqs rest where
            t2: "t2 = ?t1' @ map NetGetAuthorFeed reqs @ rest" and rest: "\<not> list_ex is_net rest"
            by blast
          obtain b where r2: "r2 = Inr b"
            using g2 hasLinkBeenPosted_never_throws[of e ag "link latest" ?t1'] by (cases r2) auto
          let ?mid = "?logs @ [NetLogin ?U ?P,
                       ConsoleLog [js ''Checking if link has been posted before...'']] @
                      map NetGetAuthorFeed reqs @ rest"
          have t2': "t2 = ?tr0 @ ?mid" using t2 login by simp
          have nc: "\<not> list_ex is_create ?mid"
            using no_net_no_create[OF rest] by (simp add: no_create_requests)
          have fm: "filter is_net ?mid = NetLogin ?U ?P # map NetGetAuthorFeed reqs"
            using filter_net_none[OF rest] by (simp add: filter_net_requests)
          show ?thesis
          proof (cases b)
            case True
            with assms g0 t0 Inr False g1 ag g2 r2
            have "tr = t2 @ [ConsoleLog [js ''This link has already been posted. Skipping.'']]"
              by (simp add: publish_body_def)
            then have "tr = ?tr0 @ (?mid @ [ConsoleLog [js ''This link has already been posted. Skipping.'']])"
              using t2' by simp
            moreover have "\<not> list_ex is_create (?mid @ [ConsoleLog [js ''This link has already been posted. Skipping.'']])"
              using nc by simp
            ultimately show ?thesis by blast
          next
            case nb: False
            let ?txt = "if title latest = [] then js ''New post'' else title latest"
            let ?t2' = "t2 @ [ConsoleLog [js ''Posting to Bluesky...'']]"
            obtain r3 t3 where g3: "sendBlueskyPost e ?txt (Some (link latest)) ?t2' = (r3, t3)"
              by (cases "sendBlueskyPost e ?txt (Some (link latest)) ?t2'")
            from assms g0 t0 Inr False g1 ag g2 r2 nb g3
            obtain fin where tr: "tr = t3 @ fin" and fin: "\<not> list_ex is_net fin"
              by (cases r3) (auto simp: publish_body_def)
            from sendBlueskyPost_cases[of e ?txt "Some (link latest)" ?t2'] g3
            consider (none) "t3 = ?t2'" | (one) "t3 = ?t2' @ [NetLogin ?U ?P]"
              | (two) cr where "t3 = ?t2' @ [NetLogin ?U ?P, NetCreateRecord cr]"
              by auto
            then show ?thesis
            proof cases
              case none
              let ?r = "?mid @ [ConsoleLog [js ''Posting to Bluesky...'']] @ fin"
              have "tr = ?tr0 @ ?r" using tr none t2' by simp
              moreover have "\<not> list_ex is_create ?r"
                using nc no_net_no_create[OF fin] by simp
              ultimately show ?thesis by blast
            next
              case one
              let ?r = "?mid @ [ConsoleLog [js ''Posting to Bluesky...''], NetLogin ?U ?P] @ fin"
              have "tr = ?tr0 @ ?r" using tr one t2' by simp
              moreover have "\<not> list_ex is_create ?r"
                using nc no_net_no_create[OF fin] by simp
              ultimately show ?thesis by blast
            next
              case two
              let ?r = "?mid @ [ConsoleLog [js ''Posting to Bluesky...''], NetLogin ?U ?P,
                                NetCreateRecord cr] @ fin"
              have "tr = ?tr0 @ ?r" using tr two t2' by simp
              moreover have "filter is_net ?r =
                  NetLogin ?U ?P # map NetGetAuthorFeed reqs @ [NetLogin ?U ?P, NetCreateRecord cr]"
                using fm filter_net_none[OF fin] by simp
              ultimately show ?thesis by blast
            qed
          qed
        qed
      qed
    qed
  qed
qed

lemma ex_build_record:
  "build_record (js ''Hello'') (Some ex_link) (js ''2026-01-01T00:00:00.000Z'') = new_record ex_created"
  by (simp add: build_record_def truthy_def or_empty_def Let_def indexOf_def endsWith_space
      ex_created_def ex_link_def js_def)

lemma ex_scan_one_page:
  assumes "\<not> list_ex is_fetch tr"
  shows "hasLinkBeenPosted (ex_env ex_feed (paged [one_page])) ex_agent ex_link tr =
           Some (Inr False, tr @ [NetGetAuthorFeed req0])"
proof -
  have f: "filter is_fetch tr = []" using assms by (induction tr) (auto split: if_splits)
  let ?e = "ex_env ex_feed (paged [one_page])"
  let ?s = "\<lparr>handle = Some (js ''me.test''), did = js ''did:plc:me''\<rparr>"
  have sv: "served ?e (session_handle ?s) tr None ([] @ [one_page])"
    using f by (simp add: ex_env_def paged_def)
  have q: "\<forall>p\<in>set ([]::page list). \<not> list_ex (mentions ex_link) (fst p) \<and> truthy (snd p)" by simp
  have c: "checked 0 ([]::page list) < 100" by (simp add: checked_def)
  have st: "list_ex (mentions ex_link) (fst one_page) \<or> \<not> truthy (snd one_page) \<or>
            100 \<le> checked 0 ([] @ [one_page])"
    by (simp add: one_page_def truthy_def)
  have nm: "\<not> list_ex (mentions ex_link) (fst one_page)"
    by (simp add: one_page_def quiet_item_quiet)
  from hasLinkBeenPosted_of_body[OF scan_body_pages[OF ex_link_nonempty ex_session sv q c st]] nm
  show ?thesis by (simp add: ex_handle req0_def)
qed

lemma ex_publish_run:
  "postLatestToBluesky (ex_env ex_feed (paged [one_page])) (js ''/rss.xml'') =
     Some (Returned,
       [ConsoleLog [js ''Reading RSS feed...''],
        ReadFile (js ''/rss.xml''),
        ConsoleLog [js ''Latest post: Hello''],
        ConsoleLog [js ''Link: https://x.test/a''],
        NetLogin (js ''me.test'') (js ''secret''),
        ConsoleLog [js ''Checking if link has been posted before...''],
        NetGetAuthorFeed req0,
        ConsoleLog [js ''Posting to Bluesky...''],
        NetLogin (js ''me.test'') (js ''secret''),
        NetCreateRecord ex_created,
        ConsoleLog [js ''Post created successfully:'', js ''at://did:plc:me/app.bsky.feed.post/1'']])"
proof -
  let ?e = "ex_env ex_feed (paged [one_page])"
  have g0: "getLatestRSSPost ?e (js ''/rss.xml'') [ConsoleLog [js ''Reading RSS feed...'']] =
          (Inr \<lparr>title = js ''Hello'', link = ex_link\<rparr>,
           [ConsoleLog [js ''Reading RSS feed...''], ReadFile (js ''/rss.xml'')])"
    by (simp add: getLatestRSSPost_def ex_env_def ex_feed_def or_empty_def)
  have g1: "getBlueskyAgent ?e tr = (Inr ex_agent, tr @ [NetLogin (js ''me.test'') (js ''secret'')])" for tr
    by (simp add: getBlueskyAgent_def ex_env_def truthy_def or_empty_def js_def)
  have g3: "sendBlueskyPost ?e (js ''Hello'') (Some ex_link) tr =
          (Inr (js ''at://did:plc:me/app.bsky.feed.post/1''),
           tr @ [NetLogin (js ''me.test'') (js ''secret''), NetCreateRecord ex_created])" for tr
  proof -
    have n: "now ?e = js ''2026-01-01T00:00:00.000Z''" by (simp add: ex_env_def)
    have cr: "createRecord ?e t r = Inr (js ''at://did:plc:me/app.bsky.feed.post/1'')" for t r
      by (simp add: ex_env_def)
    have h: "js ''Hello'' \<noteq> []" by (simp add: js_def)
    have d: "\<lparr>repo = js ''did:plc:me'', collection = js ''app.bsky.feed.post'',
              new_record = new_record ex_created\<rparr> = ex_created"
      by (simp add: ex_created_def)
    show ?thesis
      using h by (simp add: sendBlueskyPost_def g1 ex_agent_def n cr ex_build_record d)
  qed
  have p: "rssPath ?e (js ''/rss.xml'') = js ''/rss.xml''"
    by (simp add: rssPath_def ex_env_def js_def)
  have l: "ex_link \<noteq> []" "js ''Hello'' \<noteq> []" by (simp_all add: ex_link_def js_def)
  have s1: "js ''Latest post: '' @ js ''Hello'' = js ''Latest post: Hello''"
    and s2: "js ''Link: '' @ ex_link = js ''Link: https://x.test/a''"
    by (simp_all add: js_def ex_link_def)
  show ?thesis
    using l by (simp add: postLatestToBluesky_def publish_body_def p g0 g1 g3 ex_scan_one_page s1 s2)
qed

text \<open>
  Claim C5, as amended. In every run of \<open>postLatestToBluesky\<close> whose trace holds a record
  creation, the trace starts with the first log line and the read of the feed file, and
  the network calls that follow are, in this order: one login, the requests for history
  pages, a second login with the same credentials, and the record creation.
\<close>

theorem publish_network_order:
  assumes "postLatestToBluesky e rssUrl = Some (out, tr)" and "list_ex is_create tr"
  shows "\<exists>rest reqs cr.
           tr = [ConsoleLog [js ''Reading RSS feed...''], ReadFile (rssPath e rssUrl)] @ rest \<and>
           filter is_net rest =
             NetLogin (or_empty (BLUESKY_USERNAME e)) (or_empty (BLUESKY_PASSWORD e)) #
             map NetGetAuthorFeed reqs @
             [NetLogin (or_empty (BLUESKY_USERNAME e)) (or_empty (BLUESKY_PASSWORD e)),
              NetCreateRecord cr]"
proof -
  let ?tr0 = "[ConsoleLog [js ''Reading RSS feed...''], ReadFile (rssPath e rssUrl)]"
  from assms(1) obtain r trb where pb: "publish_body e (rssPath e rssUrl) = Some (r, trb)"
    and fin: "\<exists>fin. tr = trb @ fin \<and> \<not> list_ex is_net fin"
    by (cases "publish_body e (rssPath e rssUrl)")
       (auto simp: postLatestToBluesky_def split: sum.splits)
  from fin obtain fin where tr: "tr = trb @ fin" and nf: "\<not> list_ex is_net fin" by blast
  from publish_body_shape[OF pb] obtain rest where
    trb: "trb = ?tr0 @ rest" and
    alt: "\<not> list_ex is_create rest \<or>
            (\<exists>reqs cr. filter is_net rest =
               NetLogin (or_empty (BLUESKY_USERNAME e)) (or_empty (BLUESKY_PASSWORD e)) #
               map NetGetAuthorFeed reqs @
               [NetLogin (or_empty (BLUESKY_USERNAME e)) (or_empty (BLUESKY_PASSWORD e)),
                NetCreateRecord cr])"
    by blast
  have "list_ex is_create rest"
    using assms(2) tr trb no_net_no_create[OF nf] by simp
  with alt obtain reqs cr where
    "filter is_net rest =
               NetLogin (or_empty (BLUESKY_USERNAME e)) (or_empty (BLUESKY_PASSWORD e)) #
               map NetGetAuthorFeed reqs @
               [NetLogin (or_empty (BLUESKY_USERNAME e)) (or_empty (BLUESKY_PASSWORD e)),
                NetCreateRecord cr]"
    by blast
  then have "filter is_net (rest @ fin) =
               NetLogin (or_empty (BLUESKY_USERNAME e)) (or_empty (BLUESKY_PASSWORD e)) #
               map NetGetAuthorFeed reqs @
               [NetLogin (or_empty (BLUESKY_USERNAME e)) (or_empty (BLUESKY_PASSWORD e)),
                NetCreateRecord cr]"
    using filter_net_none[OF nf] by simp
  moreover have "tr = ?tr0 @ (rest @ fin)" using tr trb by simp
  ultimately show ?thesis by blast
qed

theorem publish_network_order_witness:
  "\<exists>rest reqs cr.
     postLatestToBluesky (ex_env ex_feed (paged [one_page])) (js ''/rss.xml'') =
       Some (Returned, [ConsoleLog [js ''Reading RSS feed...''], ReadFile (js ''/rss.xml'')] @ rest) \<and>
     filter is_net rest =
       NetLogin (js ''me.test'') (js ''secret'') # map NetGetAuthorFeed reqs @
       [NetLogin (js ''me.test'') (js ''secret''), NetCreateRecord cr]"
proof -
  let ?e = "ex_env ex_feed (paged [one_page])"
  obtain tr where run: "postLatestToBluesky ?e (js ''/rss.xml'') = Some (Returned, tr)"
    and c: "list_ex is_create tr"
    using ex_publish_run by simp
  have p: "rssPath ?e (js ''/rss.xml'') = js ''/rss.xml''"
    by (simp add: rssPath_def ex_env_def js_def)
  have u: "or_empty (BLUESKY_USERNAME ?e) = js ''me.test''"
    "or_empty (BLUESKY_PASSWORD ?e) = js ''secret''"
    by (simp_all add: ex_env_def or_empty_def)
  from publish_network_order[OF run c] run show ?thesis
    by (simp add: p u)
qed

text \<open>
  Claim C5 as stated fails: a run that submits authenticates twice, once in
  \<open>postLatestToBluesky\<close> and once more inside \<open>sendBlueskyPost\<close>.
\<close>

theorem publish_logs_in_twice:
  "map_option (filter is_net \<circ> snd)
     (postLatestToBluesky (ex_env ex_feed (paged [one_page])) (js ''/rss.xml'')) =
   Some [NetLogin (js ''me.test'') (js ''secret''),
         NetGetAuthorFeed req0,
         NetLogin (js ''me.test'') (js ''secret''),
         NetCreateRecord ex_created]"
  by (simp add: ex_publish_run)

text \<open>
  Claim C7. When the feed gives a latest entry with a link, the login succeeds and
  \<open>hasLinkBeenPosted\<close> returns \<open>true\<close>, \<open>postLatestToBluesky\<close> returns normally after
  logging that the link was already posted, and its trace holds no record creation.
\<close>

theorem already_posted_is_skipped:
  assumes "getLatestRSSPost e (rssPath e rssUrl) [ConsoleLog [js ''Reading RSS feed...'']] =
             (Inr latest, tr0)"
    and "link latest \<noteq> []"
    and "getBlueskyAgent e (tr0 @ [ConsoleLog [js ''Latest post: '' @ title latest],
                                    ConsoleLog [js ''Link: '' @ link latest]]) = (Inr ag, tr1)"
    and "hasLinkBeenPosted e ag (link latest)
           (tr1 @ [ConsoleLog [js ''Checking if link has been posted before...'']]) =
             Some (Inr True, tr2)"
  shows "postLatestToBluesky e rssUrl =
           Some (Returned, tr2 @ [ConsoleLog [js ''This link has already been posted. Skipping.'']]) \<and>
         \<not> list_ex is_create (tr2 @ [ConsoleLog [js ''This link has already been posted. Skipping.'']])"
proof -
  have run: "postLatestToBluesky e rssUrl =
           Some (Returned, tr2 @ [ConsoleLog [js ''This link has already been posted. Skipping.'']])"
    using assms by (simp add: postLatestToBluesky_def publish_body_def)
  have t0: "tr0 = [ConsoleLog [js ''Reading RSS feed...''], ReadFile (rssPath e rssUrl)]"
    using getLatestRSSPost_trace[of e "rssPath e rssUrl" "[ConsoleLog [js ''Reading RSS feed...'']]"]
      assms(1) by simp
  have t1: "\<not> list_ex is_create tr1"
    using getBlueskyAgent_cases[OF assms(3)] t0 by auto
  from hasLinkBeenPosted_trace[OF assms(4)] obtain reqs rest where
    "tr2 = (tr1 @ [ConsoleLog [js ''Checking if link has been posted before...'']]) @
           map NetGetAuthorFeed reqs @ rest" and "\<not> list_ex is_net rest"
    by blast
  then have "\<not> list_ex is_create tr2"
    using t1 no_net_no_create[of rest] by (simp add: no_create_requests)
  then show ?thesis using run by simp
qed

theorem already_posted_is_skipped_witness:
  "postLatestToBluesky (ex_env ex_feed (paged [hit_page, dup_page])) (js ''/rss.xml'') =
     Some (Returned,
       [ConsoleLog [js ''Reading RSS feed...''],
        ReadFile (js ''/rss.xml''),
        ConsoleLog [js ''Latest post: Hello''],
        ConsoleLog [js ''Link: https://x.test/a''],
        NetLogin (js ''me.test'') (js ''secret''),
        ConsoleLog [js ''Checking if link has been posted before...''],
        NetGetAuthorFeed req0,
        ConsoleLog [js ''This link has already been posted. Skipping.'']])"
proof -
  let ?e = "ex_env ex_feed (paged [hit_page, dup_page])"
  let ?s = "\<lparr>handle = Some (js ''me.test''), did = js ''did:plc:me''\<rparr>"
  let ?tr0 = "[ConsoleLog [js ''Reading RSS feed...''], ReadFile (js ''/rss.xml'')]"
  let ?tr1 = "?tr0 @ [ConsoleLog [js ''Latest post: Hello''], ConsoleLog [js ''Link: https://x.test/a''],
                      NetLogin (js ''me.test'') (js ''secret'')]"
  let ?tr1' = "?tr1 @ [ConsoleLog [js ''Checking if link has been posted before...'']]"
  have p: "rssPath ?e (js ''/rss.xml'') = js ''/rss.xml''"
    by (simp add: rssPath_def ex_env_def js_def)
  have "getLatestRSSPost ?e (js ''/rss.xml'') [ConsoleLog [js ''Reading RSS feed...'']] =
          (Inr \<lparr>title = js ''Hello'', link = ex_link\<rparr>, ?tr0)"
    by (simp add: getLatestRSSPost_def ex_env_def ex_feed_def or_empty_def)
  then have g0: "getLatestRSSPost ?e (rssPath ?e (js ''/rss.xml'')) [ConsoleLog [js ''Reading RSS feed...'']] =
          (Inr \<lparr>title = js ''Hello'', link = ex_link\<rparr>, ?tr0)"
    by (simp only: p)
  have l: "link \<lparr>title = js ''Hello'', link = ex_link\<rparr> \<noteq> []" by (simp add: ex_link_nonempty)
  have g1: "getBlueskyAgent ?e
              (?tr0 @ [ConsoleLog [js ''Latest post: '' @ title \<lparr>title = js ''Hello'', link = ex_link\<rparr>],
                       ConsoleLog [js ''Link: '' @ link \<lparr>title = js ''Hello'', link = ex_link\<rparr>]]) =
            (Inr ex_agent, ?tr1)"
    by (simp add: getBlueskyAgent_def ex_env_def truthy_def or_empty_def js_def ex_link_def)
  have sv: "served ?e (session_handle ?s) ?tr1' None ([] @ [hit_page])"
    by (simp add: ex_env_def paged_def)
  have q: "\<forall>p\<in>set ([]::page list). \<not> list_ex (mentions ex_link) (fst p) \<and> truthy (snd p)" by simp
  have c: "checked 0 ([]::page list) < 100" by (simp add: checked_def)
  have m: "list_ex (mentions ex_link) (fst hit_page)"
    by (simp add: hit_page_def facet_item_mentions)
  then have st: "list_ex (mentions ex_link) (fst hit_page) \<or> \<not> truthy (snd hit_page) \<or>
                 100 \<le> checked 0 ([] @ [hit_page])" by blast
  have g2: "hasLinkBeenPosted ?e ex_agent (link \<lparr>title = js ''Hello'', link = ex_link\<rparr>) ?tr1' =
              Some (Inr True, ?tr1' @ [NetGetAuthorFeed req0])"
    using hasLinkBeenPosted_of_body[OF scan_body_pages[OF ex_link_nonempty ex_session sv q c st]] m
    by (simp add: ex_handle req0_def)
  from already_posted_is_skipped[OF g0 l g1 g2] show ?thesis by simp
qed

end
